theory Spec2Isabelle
  imports Main "HOL-Library.Multiset"
begin

section \<open>The dice roller: notation, configuration, validation\<close>

text \<open>
  A shallow embedding of \<^verbatim>\<open>dice_roll.py\<close>. Every function below carries the name of
  the Python function it embeds. Python's \<^verbatim>\<open>int\<close> is \<^typ>\<open>int\<close>; a token is a
  \<^typ>\<open>string\<close> of ASCII characters; an exception is a value of type \<open>error\<close>, one
  constructor for each \<^verbatim>\<open>raise\<close> of the source (and for the built-in exceptions
  the rolling code can meet).
\<close>

subsection \<open>Constants\<close>

definition INSTRCTN_ARR :: "char list" where
  "INSTRCTN_ARR = [CHR ''d'', CHR ''r'', CHR ''t'', CHR ''l'', CHR ''h'', CHR ''A'', CHR ''D'', CHR ''E'']"

definition SPEC_ARR :: "char list" where
  "SPEC_ARR = [CHR ''r'', CHR ''t'', CHR ''l'', CHR ''h'']"

text \<open>\<^verbatim>\<open>SPEC_DEFS\<close> maps every character of \<^verbatim>\<open>SPEC_ARR\<close> to 0.\<close>

definition SPEC_DEFS :: "char \<Rightarrow> int" where
  "SPEC_DEFS s = 0"

definition N_FREQTEST :: int where
  "N_FREQTEST = 100000"

definition REGULAR_POLYHEDRA :: "int list" where
  "REGULAR_POLYHEDRA = [4, 6, 8, 10, 12, 20, 100]"

subsection \<open>Errors\<close>

text \<open>
  The source raises \<^verbatim>\<open>ValueError\<close> everywhere and tells the failures apart by their
  message. One constructor stands for each message:
  \<^item> \<open>RollBadlyFormatted\<close>: "Roll %s is badly formatted." (\<^verbatim>\<open>dice.__init__\<close>)
  \<^item> \<open>InvalidSpecChar\<close>: "Invalid spec %s." (\<^verbatim>\<open>dice.get\<close>, \<^verbatim>\<open>dice.set\<close>)
  \<^item> \<open>SpecInvalid\<close>: "Spec %s is invalid." (\<^verbatim>\<open>dice.add_spec\<close>)
  \<^item> \<open>SetTwice\<close>: "Invalid roll. `%s` is set twice." (\<^verbatim>\<open>dice.add_spec\<close>)
  \<^item> \<open>SpecBadlyFormatted\<close>: "Spec %s is badly formatted." (\<^verbatim>\<open>dice.add_spec\<close>)
  \<^item> \<open>RollsNotPositive\<close>: "Number of rolls should be greater than 0." (\<^verbatim>\<open>dice.sanitize\<close>)
  \<^item> \<open>RerollNeedsBoth\<close>: "To allow rerolls, set both r and t specs." (\<^verbatim>\<open>dice.sanitize\<close>)
  \<^item> \<open>ThresholdTooHigh\<close>: "Reroll threshold cannot be higher than n_faces." (\<^verbatim>\<open>dice.sanitize\<close>)
  \<^item> \<open>TooManyDropped\<close>: "More dice dropped than total dice rolled." (\<^verbatim>\<open>dice.sanitize\<close>)
  \<^item> \<open>IncompatibleArgs\<close>: "--freqtest and --ntests are incompatible args." (\<^verbatim>\<open>main\<close>)
  \<^item> \<open>Malformed\<close>: "Input roll is malformed." (\<^verbatim>\<open>main\<close>)
  \<^item> \<open>NoDice\<close>: "Define dice before adding specs to it." (\<^verbatim>\<open>main\<close>)
  \<^item> \<open>ShorthandNeedsOneRoll\<close>: "A, D, and E only work if n_rolls is 1." (\<^verbatim>\<open>main\<close>)
  \<^item> \<open>EmptyChoice\<close>: the \<^verbatim>\<open>IndexError\<close> of \<^verbatim>\<open>random.choice\<close> on an empty range
  \<^item> \<open>OverflowError\<close>: the \<^verbatim>\<open>OverflowError\<close> of \<^verbatim>\<open>random.choice\<close> on a range whose
    length is above \<^verbatim>\<open>sys.maxsize\<close>
  \<^item> \<open>RecursionError\<close>: the \<^verbatim>\<open>RecursionError\<close> of a call beyond the interpreter's
    recursion limit
  \<^item> \<open>EmptySequence\<close>: the \<^verbatim>\<open>ValueError\<close> of \<^verbatim>\<open>min\<close> and \<^verbatim>\<open>max\<close> on an empty list
\<close>

datatype error =
    RollBadlyFormatted string
  | InvalidSpecChar char
  | SpecInvalid string
  | SetTwice char
  | SpecBadlyFormatted string
  | RollsNotPositive
  | RerollNeedsBoth
  | ThresholdTooHigh
  | TooManyDropped
  | IncompatibleArgs
  | Malformed
  | NoDice
  | ShorthandNeedsOneRoll
  | EmptyChoice
  | OverflowError
  | RecursionError
  | EmptySequence

text \<open>
  The specification groups the failures into kinds (its section on error handling).
  \<open>error_kind\<close> records which kind each message of the source belongs to; the
  built-in exceptions of the rolling code have no kind there and are \<open>RuntimeFailure\<close>.
\<close>

datatype kind =
    FormatError
  | SequenceError
  | DuplicateModifierError
  | ValidationError
  | ConfigConflictError
  | RuntimeFailure

fun error_kind :: "error \<Rightarrow> kind" where
  "error_kind (RollBadlyFormatted s) = FormatError"
| "error_kind (InvalidSpecChar c) = FormatError"
| "error_kind (SpecInvalid s) = FormatError"
| "error_kind (SpecBadlyFormatted s) = FormatError"
| "error_kind Malformed = FormatError"
| "error_kind (SetTwice c) = DuplicateModifierError"
| "error_kind NoDice = SequenceError"
| "error_kind ShorthandNeedsOneRoll = SequenceError"
| "error_kind RollsNotPositive = ValidationError"
| "error_kind RerollNeedsBoth = ValidationError"
| "error_kind ThresholdTooHigh = ValidationError"
| "error_kind TooManyDropped = ValidationError"
| "error_kind IncompatibleArgs = ConfigConflictError"
| "error_kind EmptyChoice = RuntimeFailure"
| "error_kind OverflowError = RuntimeFailure"
| "error_kind RecursionError = RuntimeFailure"
| "error_kind EmptySequence = RuntimeFailure"

subsection \<open>The string operations of Python that the source uses\<close>

text \<open>\<^verbatim>\<open>bool(spec.find(x) + 1)\<close> for a one-character \<open>x\<close>: whether \<open>x\<close> occurs in \<open>spec\<close>.\<close>

definition contains :: "string \<Rightarrow> char \<Rightarrow> bool" where
  "contains spec x = (x \<in> set spec)"

text \<open>\<^verbatim>\<open>s.split(c)\<close> for a one-character separator: one more part than occurrences of \<open>c\<close>.\<close>

fun py_split :: "char \<Rightarrow> string \<Rightarrow> string list" where
  "py_split c [] = [[]]"
| "py_split c (x # xs) =
     (if x = c then [] # py_split c xs
      else (x # hd (py_split c xs)) # tl (py_split c xs))"

definition digit_chars :: "char list" where
  "digit_chars = ''0123456789''"

text \<open>\<^verbatim>\<open>str.isdigit\<close> on ASCII text: not empty, and decimal digits only.\<close>

definition isdigit :: "string \<Rightarrow> bool" where
  "isdigit s = (s \<noteq> [] \<and> list_all (\<lambda>c. c \<in> set digit_chars) s)"

definition digit_value :: "char \<Rightarrow> int" where
  "digit_value c = int (length (takeWhile (\<lambda>k. k \<noteq> c) digit_chars))"

text \<open>
  \<^verbatim>\<open>int(s)\<close> on a string of decimal digits. (The interpreter's cap on the length of the
  string, 4300 digits by default, is not part of the model.)
\<close>

definition py_int :: "string \<Rightarrow> int" where
  "py_int s = foldl (\<lambda>acc c. 10 * acc + digit_value c) 0 s"

text \<open>\<^verbatim>\<open>sum\<close> of a list of booleans: how many are true.\<close>

definition sum_bool :: "bool list \<Rightarrow> nat" where
  "sum_bool bs = length (filter (\<lambda>b. b) bs)"

text \<open>\<^verbatim>\<open>any\<close> of a list of booleans.\<close>

definition any :: "bool list \<Rightarrow> bool" where
  "any bs = list_ex (\<lambda>b. b) bs"

text \<open>\<^verbatim>\<open>xs[i:j]\<close> for indices inside the list.\<close>

definition slice :: "nat \<Rightarrow> nat \<Rightarrow> 'a list \<Rightarrow> 'a list" where
  "slice i j xs = take (j - i) (drop i xs)"

subsection \<open>The class \<^verbatim>\<open>dice\<close>\<close>

record dice =
  n_faces :: int
  n_rolls :: int
  n_rerolls :: int
  reroll_threshold :: int
  n_lowest_dropped :: int
  n_highest_dropped :: int

text \<open>
  \<^verbatim>\<open>dice.__init__\<close>: the four modifiers start at their class defaults
  \<^verbatim>\<open>SPEC_DEFS[...]\<close>. An empty count is replaced by \<^verbatim>\<open>'1'\<close> before the arity
  and digit checks.
\<close>

definition dice_init :: "string \<Rightarrow> error + dice" where
  "dice_init roll =
     (let dice_arr = py_split (CHR ''d'') roll;
          dice_arr = (if hd dice_arr = [] then ''1'' # tl dice_arr else dice_arr)
      in if length dice_arr \<noteq> 2 \<or> \<not> list_all isdigit dice_arr
         then Inl (RollBadlyFormatted roll)
         else Inr \<lparr> n_faces = py_int (dice_arr ! 1),
                    n_rolls = py_int (dice_arr ! 0),
                    n_rerolls = SPEC_DEFS (CHR ''r''),
                    reroll_threshold = SPEC_DEFS (CHR ''t''),
                    n_lowest_dropped = SPEC_DEFS (CHR ''l''),
                    n_highest_dropped = SPEC_DEFS (CHR ''h'') \<rparr>)"

text \<open>\<^verbatim>\<open>dice.get\<close>\<close>

definition dice_get :: "dice \<Rightarrow> char \<Rightarrow> error + int" where
  "dice_get self s =
     (if s = CHR ''r'' then Inr (n_rerolls self)
      else if s = CHR ''t'' then Inr (reroll_threshold self)
      else if s = CHR ''l'' then Inr (n_lowest_dropped self)
      else if s = CHR ''h'' then Inr (n_highest_dropped self)
      else Inl (InvalidSpecChar s))"

text \<open>\<^verbatim>\<open>dice.set\<close>\<close>

definition dice_set :: "dice \<Rightarrow> char \<Rightarrow> int \<Rightarrow> error + dice" where
  "dice_set self s v =
     (if s = CHR ''r'' \<and> v = 0 then Inr (self\<lparr>n_rerolls := - 1\<rparr>)
      else if s = CHR ''r'' then Inr (self\<lparr>n_rerolls := v\<rparr>)
      else if s = CHR ''t'' then Inr (self\<lparr>reroll_threshold := v\<rparr>)
      else if s = CHR ''l'' then Inr (self\<lparr>n_lowest_dropped := v\<rparr>)
      else if s = CHR ''h'' then Inr (self\<lparr>n_highest_dropped := v\<rparr>)
      else Inl (InvalidSpecChar s))"

text \<open>
  \<^verbatim>\<open>dice.add_spec\<close>. The order of the source is kept: the tag check, then the
  set-twice check (a comparison of the field with its default), then the format check
  (only the part after the tag is looked at), then the assignment.
  \<^verbatim>\<open>SPEC_ARR[val_arr.index(True)]\<close> is the first tag of \<^verbatim>\<open>SPEC_ARR\<close> that occurs in the
  token.
\<close>

definition add_spec :: "dice \<Rightarrow> string \<Rightarrow> error + dice" where
  "add_spec self spec =
     (let val_arr = map (contains spec) SPEC_ARR
      in if \<not> any val_arr \<or> sum_bool val_arr \<noteq> 1 then Inl (SpecInvalid spec)
         else
           let val = hd (filter (contains spec) SPEC_ARR)
           in case dice_get self val of
                Inl e \<Rightarrow> Inl e
              | Inr cur \<Rightarrow>
                  if cur \<noteq> SPEC_DEFS val then Inl (SetTwice val)
                  else
                    let spec_arr = py_split val spec
                    in if length spec_arr \<noteq> 2 \<or> \<not> isdigit (spec_arr ! 1)
                       then Inl (SpecBadlyFormatted spec)
                       else dice_set self val (py_int (spec_arr ! 1)))"

text \<open>
  \<^verbatim>\<open>dice.sanitize\<close>. The result is the error raised, or the warnings printed by an
  accepted configuration, in the order of the source.
\<close>

datatype warning = NotRegularPolyhedron | DropsBothEnds

definition sanitize :: "dice \<Rightarrow> error + warning list" where
  "sanitize self =
     (let w1 = (if n_faces self \<notin> set REGULAR_POLYHEDRA then [NotRegularPolyhedron] else [])
      in if n_rolls self \<le> 0 then Inl RollsNotPositive
         else if (n_rerolls self \<noteq> 0) \<noteq> (reroll_threshold self \<noteq> 0) then Inl RerollNeedsBoth
         else if reroll_threshold self \<ge> n_faces self then Inl ThresholdTooHigh
         else
           let w2 = (if n_lowest_dropped self \<noteq> 0 \<and> n_highest_dropped self \<noteq> 0
                     then [DropsBothEnds] else [])
           in if n_lowest_dropped self + n_highest_dropped self > n_rolls self
              then Inl TooManyDropped
              else Inr (w1 @ w2))"

subsection \<open>The token loop of \<^verbatim>\<open>main\<close>\<close>

text \<open>
  \<^verbatim>\<open>dice_arr[-1]\<close> is the last configuration; a method call on it, or an assignment to
  one of its fields, replaces the last element. The shorthand check of the source reads
  \<^verbatim>\<open>any(instruction[5:7])\<close>, the slice of the entries 5 and 6.
\<close>

definition set_last :: "dice list \<Rightarrow> error + dice \<Rightarrow> error + dice list" where
  "set_last dice_arr r = (case r of Inl e \<Rightarrow> Inl e | Inr d \<Rightarrow> Inr (butlast dice_arr @ [d]))"

definition process_spec :: "dice list \<Rightarrow> string \<Rightarrow> error + dice list" where
  "process_spec dice_arr spec =
     (let instruction = map (contains spec) INSTRCTN_ARR
      in if sum_bool instruction \<noteq> 1 then Inl Malformed
         else if instruction ! 0 then
           (case dice_init spec of Inl e \<Rightarrow> Inl e | Inr d \<Rightarrow> Inr (dice_arr @ [d]))
         else if length dice_arr = 0 then Inl NoDice
         else if any (slice 1 5 instruction) then
           set_last dice_arr (add_spec (last dice_arr) spec)
         else if any (slice 5 7 instruction) \<and> n_rolls (last dice_arr) \<noteq> 1 then
           Inl ShorthandNeedsOneRoll
         else if instruction ! 5 then
           set_last dice_arr (add_spec ((last dice_arr)\<lparr>n_rolls := 2\<rparr>) ''l1'')
         else if instruction ! 6 then
           set_last dice_arr (add_spec ((last dice_arr)\<lparr>n_rolls := 2\<rparr>) ''h1'')
         else if instruction ! 7 then
           set_last dice_arr (add_spec ((last dice_arr)\<lparr>n_rolls := 3\<rparr>) ''l2'')
         else Inr dice_arr)"

fun process_rolls :: "dice list \<Rightarrow> string list \<Rightarrow> error + dice list" where
  "process_rolls dice_arr [] = Inr dice_arr"
| "process_rolls dice_arr (spec # specs) =
     (case process_spec dice_arr spec of
        Inl e \<Rightarrow> Inl e
      | Inr dice_arr' \<Rightarrow> process_rolls dice_arr' specs)"

text \<open>The loop \<^verbatim>\<open>for d in dice_arr: d.sanitize()\<close>: the first error stops it.\<close>

fun sanitize_all :: "dice list \<Rightarrow> error + warning list" where
  "sanitize_all [] = Inr []"
| "sanitize_all (d # ds) =
     (case sanitize d of
        Inl e \<Rightarrow> Inl e
      | Inr w \<Rightarrow> (case sanitize_all ds of Inl e \<Rightarrow> Inl e | Inr ws \<Rightarrow> Inr (w @ ws)))"

text \<open>
  The ranges of the fields of every configuration that the token loop builds: counts and
  faces come from \<^verbatim>\<open>int\<close> of a digit string, and the reroll budget is such a number
  or \<open>-1\<close>. (Lemma \<open>process_rolls_in_range\<close> below.)
\<close>

definition in_range :: "dice \<Rightarrow> bool" where
  "in_range d = (0 \<le> n_faces d \<and> 0 \<le> n_rolls d \<and> - 1 \<le> n_rerolls d \<and>
     0 \<le> reroll_threshold d \<and> 0 \<le> n_lowest_dropped d \<and> 0 \<le> n_highest_dropped d)"

section \<open>The roll engine\<close>

text \<open>
  Randomness is an input: the list \<open>rs\<close> holds the values that the successive calls
  \<^verbatim>\<open>random.choice(range(self.n_faces))\<close> return, in call order; each call takes the
  head. A result is \<open>None\<close> when the list ends before the call returns (the list is the
  fuel of the reroll recursion), \<open>Some (Inl e)\<close> when \<open>e\<close> is raised, and
  \<open>Some (Inr (v, self', rs'))\<close> when \<open>v\<close> is returned with the object left as
  \<open>self'\<close> and the draws \<open>rs'\<close> unused.
\<close>

text \<open>What \<^verbatim>\<open>random.choice(range(n))\<close> can return: the elements of \<^verbatim>\<open>range(n)\<close>.\<close>

definition draws_ok :: "int \<Rightarrow> int list \<Rightarrow> bool" where
  "draws_ok n rs = list_all (\<lambda>r. 0 \<le> r \<and> r < n) rs"

text \<open>
  \<^verbatim>\<open>sys.maxsize\<close> of a 64-bit interpreter: the largest length a sequence can report.
  \<^verbatim>\<open>random.choice\<close> takes \<^verbatim>\<open>len\<close> of its argument, and \<^verbatim>\<open>len\<close> of a longer range raises
  \<^verbatim>\<open>OverflowError\<close>.
\<close>

definition maxsize :: int where
  "maxsize = 2 ^ 63 - 1"

text \<open>
  \<^verbatim>\<open>dice.roll\<close>. The first argument \<open>lim\<close> is the room under the interpreter's recursion
  limit: the number of nested activations of \<^verbatim>\<open>roll\<close>, each with its call of
  \<^verbatim>\<open>random.choice\<close>, that still fit where \<^verbatim>\<open>roll\<close> is called. With no room left the call
  raises \<^verbatim>\<open>RecursionError\<close>; a reroll is a nested call and has one activation less.
  (Under the interpreter's defaults the limit is 1000 frames and \<^verbatim>\<open>main\<close> is a few
  frames deep, so the first activation always fits.) \<^verbatim>\<open>random.choice\<close> raises
  \<^verbatim>\<open>IndexError\<close> on an empty range and \<^verbatim>\<open>OverflowError\<close> on a range longer than
  \<^verbatim>\<open>sys.maxsize\<close>. The budget \<^verbatim>\<open>self.n_rerolls\<close> is a field of the object and is
  decremented in place; a budget of \<open>-1\<close> only moves further below 0 and never reaches
  it.
\<close>

fun roll :: "nat \<Rightarrow> dice \<Rightarrow> int list \<Rightarrow> (error + int \<times> dice \<times> int list) option" where
  "roll 0 self rs = Some (Inl RecursionError)"
| "roll (Suc lim) self [] =
     (if n_faces self \<le> 0 then Some (Inl EmptyChoice)
      else if maxsize < n_faces self then Some (Inl OverflowError)
      else None)"
| "roll (Suc lim) self (r # rs) =
     (if n_faces self \<le> 0 then Some (Inl EmptyChoice)
      else if maxsize < n_faces self then Some (Inl OverflowError)
      else
        let x = r + 1
        in if x \<le> reroll_threshold self \<and> n_rerolls self \<noteq> 0
           then roll lim (self\<lparr>n_rerolls := n_rerolls self - 1\<rparr>) rs
           else Some (Inr (x, self, rs)))"

text \<open>Two states of an object that differ at most in the remaining reroll budget.\<close>

definition same_but_budget :: "dice \<Rightarrow> dice \<Rightarrow> bool" where
  "same_but_budget d d' =
     (n_faces d' = n_faces d \<and> n_rolls d' = n_rolls d \<and> reroll_threshold d' = reroll_threshold d \<and>
      n_lowest_dropped d' = n_lowest_dropped d \<and> n_highest_dropped d' = n_highest_dropped d)"

text \<open>\<^verbatim>\<open>[self.roll() for _ in range(k)]\<close>: \<open>k\<close> calls of \<^verbatim>\<open>roll\<close> on the same object.\<close>

fun roll_times :: "nat \<Rightarrow> nat \<Rightarrow> dice \<Rightarrow> int list \<Rightarrow> (error + int list \<times> dice \<times> int list) option" where
  "roll_times lim 0 self rs = Some (Inr ([], self, rs))"
| "roll_times lim (Suc k) self rs =
     (case roll lim self rs of
        None \<Rightarrow> None
      | Some (Inl e) \<Rightarrow> Some (Inl e)
      | Some (Inr (x, self', rs')) \<Rightarrow>
          (case roll_times lim k self' rs' of
             None \<Rightarrow> None
           | Some (Inl e) \<Rightarrow> Some (Inl e)
           | Some (Inr (xs, self'', rs'')) \<Rightarrow> Some (Inr (x # xs, self'', rs''))))"

text \<open>\<^verbatim>\<open>min\<close> and \<^verbatim>\<open>max\<close> of a list raise \<^verbatim>\<open>ValueError\<close> on the empty list.\<close>

fun py_min :: "int list \<Rightarrow> error + int" where
  "py_min [] = Inl EmptySequence"
| "py_min (x # xs) = Inr (fold min xs x)"

fun py_max :: "int list \<Rightarrow> error + int" where
  "py_max [] = Inl EmptySequence"
| "py_max (x # xs) = Inr (fold max xs x)"

text \<open>\<^verbatim>\<open>for _ in range(k): rolls.remove(min(rolls))\<close>; \<^verbatim>\<open>remove\<close> deletes the first occurrence.\<close>

fun drop_lowest :: "nat \<Rightarrow> int list \<Rightarrow> error + int list" where
  "drop_lowest 0 rolls = Inr rolls"
| "drop_lowest (Suc k) rolls =
     (case py_min rolls of
        Inl e \<Rightarrow> Inl e
      | Inr m \<Rightarrow> drop_lowest k (remove1 m rolls))"

text \<open>\<^verbatim>\<open>for _ in range(k): rolls.remove(max(rolls))\<close>\<close>

fun drop_highest :: "nat \<Rightarrow> int list \<Rightarrow> error + int list" where
  "drop_highest 0 rolls = Inr rolls"
| "drop_highest (Suc k) rolls =
     (case py_max rolls of
        Inl e \<Rightarrow> Inl e
      | Inr m \<Rightarrow> drop_highest k (remove1 m rolls))"

text \<open>The second half of \<^verbatim>\<open>dice.roll_n\<close>: the two removal loops and the sum.\<close>

definition drop_and_sum :: "dice \<Rightarrow> int list \<Rightarrow> error + int" where
  "drop_and_sum self rolls =
     (case drop_lowest (nat (n_lowest_dropped self)) rolls of
        Inl e \<Rightarrow> Inl e
      | Inr rolls1 \<Rightarrow>
          (case drop_highest (nat (n_highest_dropped self)) rolls1 of
             Inl e \<Rightarrow> Inl e
           | Inr rolls2 \<Rightarrow> Inr (sum_list rolls2)))"

text \<open>\<^verbatim>\<open>dice.roll_n\<close>\<close>

definition roll_n :: "nat \<Rightarrow> dice \<Rightarrow> int list \<Rightarrow> (error + int \<times> dice \<times> int list) option" where
  "roll_n lim self rs =
     (case roll_times lim (nat (n_rolls self)) self rs of
        None \<Rightarrow> None
      | Some (Inl e) \<Rightarrow> Some (Inl e)
      | Some (Inr (rolls, self', rs')) \<Rightarrow>
          (case drop_and_sum self' rolls of
             Inl e \<Rightarrow> Some (Inl e)
           | Inr tot \<Rightarrow> Some (Inr (tot, self', rs'))))"

section \<open>The simulation driver\<close>

text \<open>
  The configurations are objects, \<^verbatim>\<open>roll\<close> mutates the object it is called on, and the
  driver rolls copies. The store is a list of objects, an address is an index into it,
  and \<^verbatim>\<open>dice_arr\<close> is a list of addresses. \<^verbatim>\<open>deepcopy\<close> allocates a new object at the end
  of the store; the configurations of \<^verbatim>\<open>dice_arr\<close> are distinct objects (each comes from
  its own constructor call), so the copy of the list is a list of new, distinct objects.
\<close>

type_synonym heap = "dice list"

definition deepcopy :: "heap \<Rightarrow> nat \<Rightarrow> heap \<times> nat" where
  "deepcopy h a = (h @ [h ! a], length h)"

fun deepcopy_list :: "heap \<Rightarrow> nat list \<Rightarrow> heap \<times> nat list" where
  "deepcopy_list h [] = (h, [])"
| "deepcopy_list h (a # as) =
     (case deepcopy h a of
        (h1, c) \<Rightarrow> (case deepcopy_list h1 as of (h2, cs) \<Rightarrow> (h2, c # cs)))"

text \<open>The call \<^verbatim>\<open>d.roll_n()\<close> on the object at address \<open>a\<close>: the object is updated in the store.\<close>

definition roll_n_at :: "nat \<Rightarrow> heap \<Rightarrow> nat \<Rightarrow> int list \<Rightarrow> (error + int \<times> heap \<times> int list) option" where
  "roll_n_at lim h a rs =
     (case roll_n lim (h ! a) rs of
        None \<Rightarrow> None
      | Some (Inl e) \<Rightarrow> Some (Inl e)
      | Some (Inr (tot, self', rs')) \<Rightarrow> Some (Inr (tot, h[a := self'], rs')))"

text \<open>\<^verbatim>\<open>[d.roll_n() for d in copies]\<close>\<close>

fun roll_each :: "nat \<Rightarrow> heap \<Rightarrow> nat list \<Rightarrow> int list \<Rightarrow> (error + int list \<times> heap \<times> int list) option" where
  "roll_each lim h [] rs = Some (Inr ([], h, rs))"
| "roll_each lim h (a # as) rs =
     (case roll_n_at lim h a rs of
        None \<Rightarrow> None
      | Some (Inl e) \<Rightarrow> Some (Inl e)
      | Some (Inr (tot, h', rs')) \<Rightarrow>
          (case roll_each lim h' as rs' of
             None \<Rightarrow> None
           | Some (Inl e) \<Rightarrow> Some (Inl e)
           | Some (Inr (tots, h'', rs'')) \<Rightarrow> Some (Inr (tot # tots, h'', rs''))))"

text \<open>
  The loop of the explicit branch, \<open>k\<close> iterations:
  \<^verbatim>\<open>for i_test in range(n_tests): for result in [d.roll_n() for d in deepcopy(dice_arr)]: print\<close>.
  The result is the list of the printed rows.
\<close>

fun explicit_loop ::
  "nat \<Rightarrow> nat \<Rightarrow> heap \<Rightarrow> nat list \<Rightarrow> int list \<Rightarrow> (error + int list list \<times> heap \<times> int list) option" where
  "explicit_loop lim 0 h dice_arr rs = Some (Inr ([], h, rs))"
| "explicit_loop lim (Suc k) h dice_arr rs =
     (case deepcopy_list h dice_arr of
        (h1, copies) \<Rightarrow>
          (case roll_each lim h1 copies rs of
             None \<Rightarrow> None
           | Some (Inl e) \<Rightarrow> Some (Inl e)
           | Some (Inr (row, h2, rs')) \<Rightarrow>
               (case explicit_loop lim k h2 dice_arr rs' of
                  None \<Rightarrow> None
                | Some (Inl e) \<Rightarrow> Some (Inl e)
                | Some (Inr (rows, h3, rs'')) \<Rightarrow> Some (Inr (row # rows, h3, rs'')))))"

text \<open>
  The inner loop of the frequentist branch, from index \<open>i_die\<close> on:
  \<^verbatim>\<open>for i_die, d in enumerate(dice_arr): sum_arr[i_die] += deepcopy(d).roll_n()\<close>.
  \<^verbatim>\<open>sum_arr\<close> has one entry for each configuration, so the index is in range.
\<close>

fun freq_trial ::
  "nat \<Rightarrow> heap \<Rightarrow> nat list \<Rightarrow> nat \<Rightarrow> int list \<Rightarrow> int list \<Rightarrow> (error + int list \<times> heap \<times> int list) option" where
  "freq_trial lim h [] i_die sum_arr rs = Some (Inr (sum_arr, h, rs))"
| "freq_trial lim h (a # as) i_die sum_arr rs =
     (case deepcopy h a of
        (h1, c) \<Rightarrow>
          (case roll_n_at lim h1 c rs of
             None \<Rightarrow> None
           | Some (Inl e) \<Rightarrow> Some (Inl e)
           | Some (Inr (tot, h2, rs')) \<Rightarrow>
               freq_trial lim h2 as (Suc i_die) (sum_arr[i_die := sum_arr ! i_die + tot]) rs'))"

text \<open>The outer loop of the frequentist branch, \<open>k\<close> iterations.\<close>

fun freq_loop ::
  "nat \<Rightarrow> nat \<Rightarrow> heap \<Rightarrow> nat list \<Rightarrow> int list \<Rightarrow> int list \<Rightarrow> (error + int list \<times> heap \<times> int list) option" where
  "freq_loop lim 0 h dice_arr sum_arr rs = Some (Inr (sum_arr, h, rs))"
| "freq_loop lim (Suc k) h dice_arr sum_arr rs =
     (case freq_trial lim h dice_arr 0 sum_arr rs of
        None \<Rightarrow> None
      | Some (Inl e) \<Rightarrow> Some (Inl e)
      | Some (Inr (sum_arr', h', rs')) \<Rightarrow> freq_loop lim k h' dice_arr sum_arr' rs')"

text \<open>
  The arguments that \<^verbatim>\<open>run_parser\<close> hands to \<^verbatim>\<open>main\<close>, and what \<^verbatim>\<open>main\<close> prints after
  the header: the rows of the explicit branch, or the sums of the frequentist branch
  with the count they are divided by (the division and the formatting of the quotient
  are floating point, and are left to the reader of \<open>Average\<close>).
\<close>

record args =
  args_rolls :: "string list"
  args_ntests :: "int option"
  args_freqtest :: bool

datatype printed = Rolls "int list list" | Average "int list" int

text \<open>
  \<^verbatim>\<open>main\<close>. The parsed configurations are the initial store, \<^verbatim>\<open>dice_arr\<close> holds their
  addresses \<open>0, 1, ...\<close>. The branch is chosen by comparing \<^verbatim>\<open>n_tests\<close> with
  \<^verbatim>\<open>N_FREQTEST\<close>, as in the source. \<open>lim\<close> is the room under the recursion limit where the
  branch that runs calls \<^verbatim>\<open>roll_n\<close>.
\<close>

definition main :: "nat \<Rightarrow> args \<Rightarrow> int list \<Rightarrow> (error + printed) option" where
  "main lim args rs =
     (if args_freqtest args \<and> args_ntests args \<noteq> None then Some (Inl IncompatibleArgs)
      else
        let n_tests = 1;
            n_tests = (case args_ntests args of Some n \<Rightarrow> n | None \<Rightarrow> n_tests);
            n_tests = (if args_freqtest args then N_FREQTEST else n_tests)
        in case process_rolls [] (args_rolls args) of
             Inl e \<Rightarrow> Some (Inl e)
           | Inr h \<Rightarrow>
               (case sanitize_all h of
                  Inl e \<Rightarrow> Some (Inl e)
                | Inr ws \<Rightarrow>
                    let dice_arr = [0 ..< length h]
                    in if n_tests = N_FREQTEST then
                         (case freq_loop lim (nat n_tests) h dice_arr (map (\<lambda>_. 0) dice_arr) rs of
                            None \<Rightarrow> None
                          | Some (Inl e) \<Rightarrow> Some (Inl e)
                          | Some (Inr (sum_arr, h', rs')) \<Rightarrow> Some (Inr (Average sum_arr n_tests)))
                       else
                         (case explicit_loop lim (nat n_tests) h dice_arr rs of
                            None \<Rightarrow> None
                          | Some (Inl e) \<Rightarrow> Some (Inl e)
                          | Some (Inr (rows, h', rs')) \<Rightarrow> Some (Inr (Rolls rows)))))"

section \<open>Reference semantics from the specification\<close>

text \<open>
  The specification's reading of the reroll budget, for comparison with \<open>roll_times\<close>:
  every die of the group starts from the configuration's own budget, so a reroll of one
  die takes nothing from the next.
\<close>

fun spec_roll_times_per_die :: "nat \<Rightarrow> nat \<Rightarrow> dice \<Rightarrow> int list \<Rightarrow> (error + int list \<times> int list) option" where
  "spec_roll_times_per_die lim 0 cfg rs = Some (Inr ([], rs))"
| "spec_roll_times_per_die lim (Suc k) cfg rs =
     (case roll lim cfg rs of
        None \<Rightarrow> None
      | Some (Inl e) \<Rightarrow> Some (Inl e)
      | Some (Inr (x, cfg', rs')) \<Rightarrow>
          (case spec_roll_times_per_die lim k cfg rs' of
             None \<Rightarrow> None
           | Some (Inl e) \<Rightarrow> Some (Inl e)
           | Some (Inr (xs, rs'')) \<Rightarrow> Some (Inr (x # xs, rs''))))"




text \<open>
  The specification's independent trials, for comparison with the loops of the driver:
  a trial rolls each validated configuration as it was validated, whatever earlier
  trials did, and passes on nothing but the position in the stream of draws.
\<close>

fun spec_trial :: "nat \<Rightarrow> dice list \<Rightarrow> int list \<Rightarrow> (error + int list \<times> int list) option" where
  "spec_trial lim [] rs = Some (Inr ([], rs))"
| "spec_trial lim (cfg # cfgs) rs =
     (case roll_n lim cfg rs of
        None \<Rightarrow> None
      | Some (Inl e) \<Rightarrow> Some (Inl e)
      | Some (Inr (tot, cfg', rs')) \<Rightarrow>
          (case spec_trial lim cfgs rs' of
             None \<Rightarrow> None
           | Some (Inl e) \<Rightarrow> Some (Inl e)
           | Some (Inr (tots, rs'')) \<Rightarrow> Some (Inr (tot # tots, rs''))))"

fun spec_trials :: "nat \<Rightarrow> nat \<Rightarrow> dice list \<Rightarrow> int list \<Rightarrow> (error + int list list \<times> int list) option" where
  "spec_trials lim 0 cfgs rs = Some (Inr ([], rs))"
| "spec_trials lim (Suc k) cfgs rs =
     (case spec_trial lim cfgs rs of
        None \<Rightarrow> None
      | Some (Inl e) \<Rightarrow> Some (Inl e)
      | Some (Inr (row, rs')) \<Rightarrow>
          (case spec_trials lim k cfgs rs' of
             None \<Rightarrow> None
           | Some (Inl e) \<Rightarrow> Some (Inl e)
           | Some (Inr (rows, rs'')) \<Rightarrow> Some (Inr (row # rows, rs''))))"

text \<open>A run of the driver without its final store.\<close>

definition forget_heap :: "(error + 'a \<times> heap \<times> int list) option \<Rightarrow> (error + 'a \<times> int list) option" where
  "forget_heap r = map_option (map_sum (\<lambda>e. e) (\<lambda>(x, h, rs). (x, rs))) r"

text \<open>The sums of the frequentist branch after the given rows: column by column.\<close>

definition add_rows :: "int list \<Rightarrow> int list list \<Rightarrow> int list" where
  "add_rows sum_arr rows = foldl (\<lambda>acc row. map (\<lambda>(s, t). s + t) (zip acc row)) sum_arr rows"

section \<open>Properties of the token loop\<close>

subsection \<open>Which instruction a token carries\<close>

lemma instruction_single:
  assumes "filter (contains spec) INSTRCTN_ARR = [c]"
  shows "map (contains spec) INSTRCTN_ARR = map (\<lambda>x. x = c) INSTRCTN_ARR"
  using assms unfolding INSTRCTN_ARR_def
  by (auto split: if_splits)

lemma spec_val_arr:
  assumes "filter (contains spec) SPEC_ARR = [val]"
  shows "map (contains spec) SPEC_ARR = map (\<lambda>x. x = val) SPEC_ARR" and "val \<in> set SPEC_ARR"
  using assms unfolding SPEC_ARR_def
  by (auto split: if_splits)

lemma py_split_absent: "c \<notin> set s \<Longrightarrow> py_split c s = [s]"
  by (induction s) auto

lemma digits_not_tags: "set digit_chars \<inter> set INSTRCTN_ARR = {}"
  by (simp add: digit_chars_def INSTRCTN_ARR_def)

lemma isdigit_set: "isdigit s \<Longrightarrow> set s \<subseteq> set digit_chars"
  unfolding isdigit_def list_all_iff by blast

lemma isdigit_no_tag: "isdigit s \<Longrightarrow> x \<in> set INSTRCTN_ARR \<Longrightarrow> x \<notin> set s"
  using digits_not_tags isdigit_set by blast

subsection \<open>\<^verbatim>\<open>add_spec\<close> on a token that carries one modifier tag\<close>

lemma add_spec_tagged:
  assumes "filter (contains spec) SPEC_ARR = [val]"
  shows "add_spec self spec =
     (if dice_get self val \<noteq> Inr 0 then Inl (SetTwice val)
      else if length (py_split val spec) \<noteq> 2 \<or> \<not> isdigit (py_split val spec ! 1)
        then Inl (SpecBadlyFormatted spec)
        else dice_set self val (py_int (py_split val spec ! 1)))"
  using spec_val_arr(2)[OF assms]
  unfolding add_spec_def spec_val_arr(1)[OF assms] assms
  by (auto simp: SPEC_ARR_def sum_bool_def any_def dice_get_def SPEC_DEFS_def Let_def)

lemma dice_get_after_set:
  assumes "val \<in> set SPEC_ARR" and "dice_set self val v = Inr self'"
  shows "dice_get self' val = Inr (if val = CHR ''r'' \<and> v = 0 then - 1 else v)"
  using assms by (auto simp: SPEC_ARR_def dice_set_def dice_get_def)

lemma add_spec_reroll_digits:
  assumes "n_rerolls self = 0" and "isdigit ds"
  shows "add_spec self (CHR ''r'' # ds) =
           Inr (self\<lparr>n_rerolls := (if py_int ds = 0 then - 1 else py_int ds)\<rparr>)"
proof -
  have no: "x \<notin> set ds" if "x \<in> set INSTRCTN_ARR" for x
    using isdigit_no_tag[OF assms(2) that] .
  have tag: "filter (contains (CHR ''r'' # ds)) SPEC_ARR = [CHR ''r'']"
    using no by (simp add: SPEC_ARR_def contains_def INSTRCTN_ARR_def)
  have split: "py_split (CHR ''r'') (CHR ''r'' # ds) = [[], ds]"
    using no[of "CHR ''r''"] by (simp add: py_split_absent INSTRCTN_ARR_def)
  show ?thesis
    unfolding add_spec_tagged[OF tag] split
    using assms by (simp add: dice_get_def dice_set_def)
qed

subsection \<open>The shorthands\<close>

lemma shorthand_needs_one_roll:
  assumes "filter (contains spec) INSTRCTN_ARR = [c]" and "c = CHR ''A'' \<or> c = CHR ''D''"
    and "dice_arr \<noteq> []" and "n_rolls (last dice_arr) \<noteq> 1"
  shows "process_spec dice_arr spec = Inl ShorthandNeedsOneRoll"
  using assms(2-) unfolding process_spec_def instruction_single[OF assms(1)]
  by (auto simp: INSTRCTN_ARR_def sum_bool_def any_def slice_def)

lemma advantage_applies:
  assumes "filter (contains spec) INSTRCTN_ARR = [CHR ''A'']"
    and "dice_arr \<noteq> []" and "n_rolls (last dice_arr) = 1"
  shows "process_spec dice_arr spec =
           set_last dice_arr (add_spec ((last dice_arr)\<lparr>n_rolls := 2\<rparr>) ''l1'')"
  using assms(2-) unfolding process_spec_def instruction_single[OF assms(1)]
  by (auto simp: INSTRCTN_ARR_def sum_bool_def any_def slice_def)

lemma elite_applies:
  assumes "filter (contains spec) INSTRCTN_ARR = [CHR ''E'']" and "dice_arr \<noteq> []"
  shows "process_spec dice_arr spec =
           set_last dice_arr (add_spec ((last dice_arr)\<lparr>n_rolls := 3\<rparr>) ''l2'')"
  using assms(2-) unfolding process_spec_def instruction_single[OF assms(1)]
  by (auto simp: INSTRCTN_ARR_def sum_bool_def any_def slice_def)

lemma add_spec_l1:
  "add_spec d ''l1'' =
     (if n_lowest_dropped d \<noteq> 0 then Inl (SetTwice (CHR ''l'')) else Inr (d\<lparr>n_lowest_dropped := 1\<rparr>))"
  by (simp add: add_spec_def SPEC_ARR_def contains_def any_def sum_bool_def dice_get_def
      SPEC_DEFS_def isdigit_def digit_chars_def py_int_def digit_value_def dice_set_def)

lemma add_spec_l2:
  "add_spec d ''l2'' =
     (if n_lowest_dropped d \<noteq> 0 then Inl (SetTwice (CHR ''l'')) else Inr (d\<lparr>n_lowest_dropped := 2\<rparr>))"
  by (simp add: add_spec_def SPEC_ARR_def contains_def any_def sum_bool_def dice_get_def
      SPEC_DEFS_def isdigit_def digit_chars_def py_int_def digit_value_def dice_set_def)

lemma elite_on_any_roll_count:
  assumes "dice_arr \<noteq> []" and "n_lowest_dropped (last dice_arr) = 0"
  shows "process_spec dice_arr ''E'' =
           Inr (butlast dice_arr @ [(last dice_arr)\<lparr>n_rolls := 3, n_lowest_dropped := 2\<rparr>])"
proof -
  have "filter (contains ''E'') INSTRCTN_ARR = [CHR ''E'']"
    by (simp add: INSTRCTN_ARR_def contains_def)
  from elite_applies[OF this assms(1)] assms(2) show ?thesis
    by (simp add: add_spec_l2 set_last_def)
qed

lemmas parse_defs = process_spec_def INSTRCTN_ARR_def contains_def sum_bool_def dice_init_def
  isdigit_def digit_chars_def py_int_def digit_value_def SPEC_DEFS_def any_def slice_def
  set_last_def add_spec_def SPEC_ARR_def dice_get_def dice_set_def

subsection \<open>Claims about the token loop\<close>

text \<open>
  C1 (the shorthands \<^verbatim>\<open>A\<close>, \<^verbatim>\<open>D\<close> and \<^verbatim>\<open>E\<close> all fail with a SequenceError when the
  current configuration's roll count is not 1). The source does not do this for
  \<^verbatim>\<open>E\<close>: its guard reads the slice \<^verbatim>\<open>instruction[5:7]\<close>, which holds the entries of
  \<^verbatim>\<open>A\<close> and \<^verbatim>\<open>D\<close> only, although its message names all three. On the tokens
  \<^verbatim>\<open>2d6 E\<close> the loop ends without an error, with three rolls of which the two lowest
  are dropped.
\<close>

theorem elite_shorthand_skips_roll_count_check:
  "process_rolls [] [''2d6'', ''E''] =
     Inr [\<lparr>n_faces = 6, n_rolls = 3, n_rerolls = 0, reroll_threshold = 0,
           n_lowest_dropped = 2, n_highest_dropped = 0\<rparr>]"
  by (simp add: parse_defs)

theorem elite_shorthand_skips_roll_count_check_witness:
  "process_rolls [] [''2d6'', ''E''] \<noteq> Inl ShorthandNeedsOneRoll"
  using elite_shorthand_skips_roll_count_check by simp

lemma set_modifier_is_rejected:
  assumes "filter (contains spec) SPEC_ARR = [val]" and "dice_get self val \<noteq> Inr 0"
  shows "add_spec self spec = Inl (SetTwice val)"
  unfolding add_spec_tagged[OF assms(1)] using assms(2) by simp

lemma second_occurrence_after_nonzero:
  assumes t1: "filter (contains spec1) SPEC_ARR = [val]"
    and t2: "filter (contains spec2) SPEC_ARR = [val]"
    and ok: "add_spec self spec1 = Inr self'"
    and nz: "val = CHR ''r'' \<or> py_int (py_split val spec1 ! 1) \<noteq> 0"
  shows "add_spec self' spec2 = Inl (SetTwice val)"
proof -
  from ok have s: "dice_set self val (py_int (py_split val spec1 ! 1)) = Inr self'"
    unfolding add_spec_tagged[OF t1] by (simp split: if_splits)
  have "dice_get self' val \<noteq> Inr 0"
    using nz unfolding dice_get_after_set[OF spec_val_arr(2)[OF t1] s] by auto
  then show ?thesis by (rule set_modifier_is_rejected[OF t2])
qed

lemma reroll_count_twice:
  "process_rolls [] [''1d6'', ''r1'', ''r2''] = Inl (SetTwice (CHR ''r''))"
  "error_kind (SetTwice (CHR ''r'')) = DuplicateModifierError"
  by (simp_all add: parse_defs)

lemma one_token_is_malformed: "process_rolls [] [''1d6r1r2''] = Inl Malformed"
  by (simp add: parse_defs)

text \<open>
  C3 (a second occurrence of a modifier on the same configuration fails with a
  DuplicateModifierError whatever the values given, never overwrites). The source means
  this, its message says "is set twice", and it does so when the field is not 0 (lemma
  \<open>set_modifier_is_rejected\<close>, and \<open>reroll_count_twice\<close> for the tokens
  \<^verbatim>\<open>1d6 r1 r2\<close>). But it tells a set modifier from an unset one by comparing the field
  with its default 0, so a threshold or a drop count first given as 0 is not seen as
  set: on \<^verbatim>\<open>1d6 t0 t5\<close>, \<^verbatim>\<open>2d6 l0 l1\<close> and \<^verbatim>\<open>2d6 h0 h1\<close> the second occurrence
  raises nothing and overwrites the first.
\<close>

theorem zero_valued_modifier_is_not_detected:
  "process_rolls [] [''1d6'', ''t0'', ''t5''] =
     Inr [\<lparr>n_faces = 6, n_rolls = 1, n_rerolls = 0, reroll_threshold = 5,
           n_lowest_dropped = 0, n_highest_dropped = 0\<rparr>] \<and>
   process_rolls [] [''2d6'', ''l0'', ''l1''] =
     Inr [\<lparr>n_faces = 6, n_rolls = 2, n_rerolls = 0, reroll_threshold = 0,
           n_lowest_dropped = 1, n_highest_dropped = 0\<rparr>] \<and>
   process_rolls [] [''2d6'', ''h0'', ''h1''] =
     Inr [\<lparr>n_faces = 6, n_rolls = 2, n_rerolls = 0, reroll_threshold = 0,
           n_lowest_dropped = 0, n_highest_dropped = 1\<rparr>]"
  by (simp add: parse_defs)

theorem zero_valued_modifier_is_not_detected_witness:
  "process_rolls [] [''1d6'', ''t0'', ''t5''] \<noteq> Inl (SetTwice (CHR ''t'')) \<and>
   process_rolls [] [''2d6'', ''l0'', ''l1''] \<noteq> Inl (SetTwice (CHR ''l'')) \<and>
   process_rolls [] [''2d6'', ''h0'', ''h1''] \<noteq> Inl (SetTwice (CHR ''h''))"
  using zero_valued_modifier_is_not_detected by simp

text \<open>
  C5, as stated (the tokens \<^verbatim>\<open>1d6 A\<close> fail with a SequenceError), fails: \<^verbatim>\<open>1d6\<close>
  has roll count 1, which is what \<^verbatim>\<open>A\<close> asks for, and the loop ends with two rolls
  of which the lowest is dropped.
\<close>

theorem advantage_after_1d6_counterexample:
  "process_rolls [] [''1d6'', ''A''] =
     Inr [\<lparr>n_faces = 6, n_rolls = 2, n_rerolls = 0, reroll_threshold = 0,
           n_lowest_dropped = 1, n_highest_dropped = 0\<rparr>]"
  by (simp add: parse_defs)

text \<open>
  C5, amended: \<^verbatim>\<open>A\<close> fails with \<open>ShorthandNeedsOneRoll\<close>, a SequenceError, when the
  roll count of the current configuration is not 1, as on the tokens \<^verbatim>\<open>2d6 A\<close>; when
  it is 1 and no drop-lowest is set, \<^verbatim>\<open>A\<close> sets the roll count to 2 and drop-lowest
  to 1, as on the tokens \<^verbatim>\<open>1d6 A\<close>.
\<close>

theorem advantage_needs_roll_count_one:
  "(dice_arr \<noteq> [] \<and> n_rolls (last dice_arr) \<noteq> 1
      \<longrightarrow> process_spec dice_arr ''A'' = Inl ShorthandNeedsOneRoll) \<and>
   (dice_arr \<noteq> [] \<and> n_rolls (last dice_arr) = 1 \<and> n_lowest_dropped (last dice_arr) = 0
      \<longrightarrow> process_spec dice_arr ''A'' =
            Inr (butlast dice_arr @ [(last dice_arr)\<lparr>n_rolls := 2, n_lowest_dropped := 1\<rparr>])) \<and>
   error_kind ShorthandNeedsOneRoll = SequenceError \<and>
   process_rolls [] [''2d6'', ''A''] = Inl ShorthandNeedsOneRoll"
proof -
  have tag: "filter (contains ''A'') INSTRCTN_ARR = [CHR ''A'']"
    by (simp add: INSTRCTN_ARR_def contains_def)
  have "process_spec dice_arr ''A'' = Inl ShorthandNeedsOneRoll"
    if "dice_arr \<noteq> []" "n_rolls (last dice_arr) \<noteq> 1"
    using shorthand_needs_one_roll[OF tag _ that] by simp
  moreover have "process_spec dice_arr ''A'' =
      Inr (butlast dice_arr @ [(last dice_arr)\<lparr>n_rolls := 2, n_lowest_dropped := 1\<rparr>])"
    if "dice_arr \<noteq> []" "n_rolls (last dice_arr) = 1" "n_lowest_dropped (last dice_arr) = 0"
    using advantage_applies[OF tag that(1,2)] that(3) by (simp add: add_spec_l1 set_last_def)
  moreover have "process_rolls [] [''2d6'', ''A''] = Inl ShorthandNeedsOneRoll"
    by (simp add: parse_defs)
  ultimately show ?thesis by simp
qed

theorem advantage_needs_roll_count_one_witness:
  "process_spec [\<lparr>n_faces = 20, n_rolls = 3, n_rerolls = 0, reroll_threshold = 0,
                  n_lowest_dropped = 0, n_highest_dropped = 0\<rparr>] ''A'' = Inl ShorthandNeedsOneRoll \<and>
   process_spec [\<lparr>n_faces = 20, n_rolls = 1, n_rerolls = 0, reroll_threshold = 0,
                  n_lowest_dropped = 0, n_highest_dropped = 0\<rparr>] ''A'' =
     Inr [\<lparr>n_faces = 20, n_rolls = 2, n_rerolls = 0, reroll_threshold = 0,
           n_lowest_dropped = 1, n_highest_dropped = 0\<rparr>]"
  using advantage_needs_roll_count_one[of "[\<lparr>n_faces = 20, n_rolls = 3, n_rerolls = 0,
      reroll_threshold = 0, n_lowest_dropped = 0, n_highest_dropped = 0\<rparr>]"]
    advantage_needs_roll_count_one[of "[\<lparr>n_faces = 20, n_rolls = 1, n_rerolls = 0,
      reroll_threshold = 0, n_lowest_dropped = 0, n_highest_dropped = 0\<rparr>]"]
  by simp

text \<open>
  C9: a new configuration has reroll budget 0 (no reroll); \<^verbatim>\<open>set\<close> with tag \<^verbatim>\<open>r\<close>
  stores \<open>-1\<close> (unlimited) for the value 0 and the value itself for every \<open>N > 0\<close>; so
  on a configuration with no reroll count yet, the token \<^verbatim>\<open>r\<close> followed by digits
  stores \<open>-1\<close> when the digits denote 0 and the number they denote otherwise.
\<close>

theorem reroll_count_zero_is_unlimited:
  "(dice_init tok = Inr d \<longrightarrow> n_rerolls d = 0) \<and>
   dice_set self (CHR ''r'') 0 = Inr (self\<lparr>n_rerolls := - 1\<rparr>) \<and>
   (0 < N \<longrightarrow> dice_set self (CHR ''r'') N = Inr (self\<lparr>n_rerolls := N\<rparr>)) \<and>
   (n_rerolls self = 0 \<and> isdigit ds \<longrightarrow>
      add_spec self (CHR ''r'' # ds) =
        Inr (self\<lparr>n_rerolls := (if py_int ds = 0 then - 1 else py_int ds)\<rparr>))"
proof -
  have "n_rerolls d = 0" if "dice_init tok = Inr d"
    using that by (auto simp: dice_init_def Let_def SPEC_DEFS_def split: if_splits)
  moreover have "dice_set self (CHR ''r'') 0 = Inr (self\<lparr>n_rerolls := - 1\<rparr>)"
    by (simp add: dice_set_def)
  moreover have "dice_set self (CHR ''r'') N = Inr (self\<lparr>n_rerolls := N\<rparr>)" if "0 < N"
    using that by (simp add: dice_set_def)
  ultimately show ?thesis
    using add_spec_reroll_digits[of self ds] by blast
qed

theorem reroll_count_zero_is_unlimited_witness:
  "dice_init ''1d6'' = Inr \<lparr>n_faces = 6, n_rolls = 1, n_rerolls = 0, reroll_threshold = 0,
                            n_lowest_dropped = 0, n_highest_dropped = 0\<rparr> \<and>
   (0::int) < 3 \<and>
   dice_set \<lparr>n_faces = 6, n_rolls = 1, n_rerolls = 0, reroll_threshold = 0,
             n_lowest_dropped = 0, n_highest_dropped = 0\<rparr> (CHR ''r'') 3 =
     Inr \<lparr>n_faces = 6, n_rolls = 1, n_rerolls = 3, reroll_threshold = 0,
          n_lowest_dropped = 0, n_highest_dropped = 0\<rparr> \<and>
   isdigit ''0'' \<and>
   add_spec \<lparr>n_faces = 6, n_rolls = 1, n_rerolls = 0, reroll_threshold = 0,
             n_lowest_dropped = 0, n_highest_dropped = 0\<rparr> ''r0'' =
     Inr \<lparr>n_faces = 6, n_rolls = 1, n_rerolls = - 1, reroll_threshold = 0,
          n_lowest_dropped = 0, n_highest_dropped = 0\<rparr>"
proof -
  have i: "dice_init ''1d6'' = Inr \<lparr>n_faces = 6, n_rolls = 1, n_rerolls = 0, reroll_threshold = 0,
                            n_lowest_dropped = 0, n_highest_dropped = 0\<rparr>"
    by (simp add: parse_defs)
  have g: "isdigit ''0''"
    by (simp add: isdigit_def digit_chars_def)
  have z: "py_int ''0'' = 0"
    by (simp add: py_int_def digit_value_def digit_chars_def)
  from reroll_count_zero_is_unlimited[of "''1d6''" _ "\<lparr>n_faces = 6, n_rolls = 1, n_rerolls = 0,
      reroll_threshold = 0, n_lowest_dropped = 0, n_highest_dropped = 0\<rparr>" 3 "''0''"] i g z
  show ?thesis by simp
qed

section \<open>Properties of the configurations the token loop builds\<close>

lemma foldl_digits_nonneg: "0 \<le> acc \<Longrightarrow> 0 \<le> foldl (\<lambda>acc c. 10 * acc + digit_value c) acc s"
  by (induction s arbitrary: acc) (auto simp: digit_value_def)

lemma py_int_nonneg: "0 \<le> py_int s"
  unfolding py_int_def by (rule foldl_digits_nonneg) simp

lemma dice_init_in_range: "dice_init tok = Inr d \<Longrightarrow> in_range d"
  by (auto simp: dice_init_def Let_def SPEC_DEFS_def in_range_def py_int_nonneg split: if_splits)

lemma dice_set_in_range: "dice_set self s v = Inr self' \<Longrightarrow> 0 \<le> v \<Longrightarrow> in_range self \<Longrightarrow> in_range self'"
  by (auto simp: dice_set_def in_range_def split: if_splits)

lemma add_spec_in_range: "add_spec self spec = Inr self' \<Longrightarrow> in_range self \<Longrightarrow> in_range self'"
  unfolding add_spec_def Let_def
  by (auto split: if_splits sum.splits intro: dice_set_in_range[OF _ py_int_nonneg])

lemma set_last_in_range:
  assumes "set_last dice_arr (add_spec d spec) = Inr dice_arr'" "in_range d" "list_all in_range dice_arr"
  shows "list_all in_range dice_arr'"
proof -
  from assms(1) obtain d' where a: "add_spec d spec = Inr d'" and e: "dice_arr' = butlast dice_arr @ [d']"
    by (auto simp: set_last_def split: sum.splits)
  have "in_range d'" using add_spec_in_range[OF a assms(2)] .
  moreover have "list_all in_range (butlast dice_arr)"
    using assms(3) by (auto simp: list_all_iff dest: in_set_butlastD)
  ultimately show ?thesis by (simp add: e)
qed

lemma process_spec_in_range:
  assumes "process_spec dice_arr spec = Inr dice_arr'" and "list_all in_range dice_arr"
  shows "list_all in_range dice_arr'"
proof -
  have l: "dice_arr \<noteq> [] \<Longrightarrow> in_range (last dice_arr)"
    using assms(2) by (simp add: list_all_iff)
  have l2: "dice_arr \<noteq> [] \<Longrightarrow> in_range ((last dice_arr)\<lparr>n_rolls := k\<rparr>)" if "0 \<le> k" for k
    using l that by (simp add: in_range_def)
  show ?thesis
    using assms l unfolding process_spec_def Let_def
    by (auto split: if_splits sum.splits dest: dice_init_in_range
        elim!: set_last_in_range[OF _ _ assms(2)] intro: l2)
qed

lemma process_rolls_in_range:
  "process_rolls dice_arr specs = Inr dice_arr' \<Longrightarrow> list_all in_range dice_arr \<Longrightarrow> list_all in_range dice_arr'"
  by (induction specs arbitrary: dice_arr) (auto split: sum.splits dest: process_spec_in_range)

lemma sanitize_all_member:
  "sanitize_all ds = Inr ws \<Longrightarrow> d \<in> set ds \<Longrightarrow> \<exists>w. sanitize d = Inr w"
  by (induction ds arbitrary: ws) (auto split: sum.splits)

lemma sanitize_accepts:
  "sanitize d = Inr w \<Longrightarrow> 0 < n_rolls d \<and> (n_rerolls d \<noteq> 0) = (reroll_threshold d \<noteq> 0) \<and> reroll_threshold d < n_faces d
     \<and> n_lowest_dropped d + n_highest_dropped d \<le> n_rolls d"
  by (auto simp: sanitize_def Let_def split: if_splits)

lemma validated_faces: "in_range d \<Longrightarrow> sanitize d = Inr w \<Longrightarrow> 0 < n_faces d"
  using sanitize_accepts[of d w] by (auto simp: in_range_def)

lemma sanitize_has_no_faces_check:
  "sanitize \<lparr>n_faces = 0, n_rolls = 1, n_rerolls = - 1, reroll_threshold = - 1,
             n_lowest_dropped = 0, n_highest_dropped = 0\<rparr> = Inr [NotRegularPolyhedron]"
  by (simp add: sanitize_def REGULAR_POLYHEDRA_def)

section \<open>Properties of the roll engine\<close>

subsection \<open>One die\<close>

lemma roll_Nil_room:
  "0 < lim \<Longrightarrow> roll lim self [] =
     (if n_faces self \<le> 0 then Some (Inl EmptyChoice)
      else if maxsize < n_faces self then Some (Inl OverflowError)
      else None)"
  by (cases lim) simp_all

lemma roll_Cons_room:
  "0 < lim \<Longrightarrow> roll lim self (r # rs) =
     (if n_faces self \<le> 0 then Some (Inl EmptyChoice)
      else if maxsize < n_faces self then Some (Inl OverflowError)
      else if r + 1 \<le> reroll_threshold self \<and> n_rerolls self \<noteq> 0
           then roll (lim - 1) (self\<lparr>n_rerolls := n_rerolls self - 1\<rparr>) rs
           else Some (Inr (r + 1, self, rs)))"
  by (cases lim) (simp_all add: Let_def)

lemma roll_frame:
  "roll lim self rs = Some (Inr (x, self', rs')) \<Longrightarrow>
     same_but_budget self self' \<and> n_rerolls self' \<le> n_rerolls self \<and>
     (0 \<le> n_rerolls self \<longrightarrow> 0 \<le> n_rerolls self') \<and>
     int (length rs) = int (length rs') + 1 + (n_rerolls self - n_rerolls self') \<and>
     nat (n_rerolls self - n_rerolls self') < lim \<and>
     (reroll_threshold self < x \<or> n_rerolls self' = 0) \<and>
     (\<exists>used r. rs = used @ r # rs' \<and> x = r + 1 \<and>
        int (length used) = n_rerolls self - n_rerolls self' \<and>
        list_all (\<lambda>u. u + 1 \<le> reroll_threshold self) used)"
proof (induction lim self rs rule: roll.induct)
  case (1 self rs)
  then show ?case by simp
next
  case (2 lim self)
  then show ?case by (simp split: if_splits)
next
  case (3 lim self r rs)
  from 3(2) have n: "\<not> n_faces self \<le> 0" "\<not> maxsize < n_faces self"
    by (simp_all split: if_splits)
  show ?case
  proof (cases "r + 1 \<le> reroll_threshold self \<and> n_rerolls self \<noteq> 0")
    case True
    with 3(2) n have r: "roll lim (self\<lparr>n_rerolls := n_rerolls self - 1\<rparr>) rs = Some (Inr (x, self', rs'))"
      by simp
    note ih = 3(1)[OF n refl True r]
    from ih obtain used r' where u: "rs = used @ r' # rs'" "x = r' + 1"
      "int (length used) = n_rerolls self - 1 - n_rerolls self'"
      "list_all (\<lambda>u. u + 1 \<le> reroll_threshold self) used"
      by auto
    have "r # rs = (r # used) @ r' # rs' \<and> x = r' + 1 \<and>
        int (length (r # used)) = n_rerolls self - n_rerolls self' \<and>
        list_all (\<lambda>u. u + 1 \<le> reroll_threshold self) (r # used)"
      using u True by simp
    then have ex: "\<exists>used r'. r # rs = used @ r' # rs' \<and> x = r' + 1 \<and>
        int (length used) = n_rerolls self - n_rerolls self' \<and>
        list_all (\<lambda>u. u + 1 \<le> reroll_threshold self) used"
      by blast
    from ih True have "same_but_budget self self' \<and> n_rerolls self' \<le> n_rerolls self \<and>
     (0 \<le> n_rerolls self \<longrightarrow> 0 \<le> n_rerolls self') \<and>
     int (length (r # rs)) = int (length rs') + 1 + (n_rerolls self - n_rerolls self') \<and>
     nat (n_rerolls self - n_rerolls self') < Suc lim \<and>
     (reroll_threshold self < x \<or> n_rerolls self' = 0)"
      by (auto simp: same_but_budget_def)
    with ex show ?thesis by blast
  next
    case False
    with 3(2) n have e: "x = r + 1" "self' = self" "rs' = rs" by (auto simp: Let_def)
    have "r # rs = [] @ r # rs' \<and> x = r + 1 \<and> int (length ([]::int list)) = n_rerolls self - n_rerolls self' \<and>
        list_all (\<lambda>u. u + 1 \<le> reroll_threshold self) []"
      using e by simp
    then have "\<exists>used r'. r # rs = used @ r' # rs' \<and> x = r' + 1 \<and>
        int (length used) = n_rerolls self - n_rerolls self' \<and>
        list_all (\<lambda>u. u + 1 \<le> reroll_threshold self) used"
      by blast
    with e False show ?thesis by (auto simp: same_but_budget_def)
  qed
qed

lemma roll_suffix: "roll lim self rs = Some (Inr (x, self', rs')) \<Longrightarrow> set rs' \<subseteq> set rs"
  using roll_frame[of lim self rs x self' rs'] by auto

lemma roll_range:
  assumes "roll lim self rs = Some (Inr (x, self', rs'))" and "draws_ok (n_faces self) rs"
  shows "1 \<le> x \<and> x \<le> n_faces self"
proof -
  from roll_frame[OF assms(1)] obtain used r where "rs = used @ r # rs'" "x = r + 1" by blast
  with assms(2) show ?thesis by (simp add: draws_ok_def)
qed

lemma roll_error:
  "roll lim self rs = Some (Inl e) \<Longrightarrow>
     (e = EmptyChoice \<and> n_faces self \<le> 0) \<or> (e = OverflowError \<and> maxsize < n_faces self) \<or>
     e = RecursionError"
proof (induction lim self rs rule: roll.induct)
  case (1 self rs)
  then show ?case by simp
next
  case (2 lim self)
  then show ?case by (simp split: if_splits)
next
  case (3 lim self r rs)
  show ?case
  proof (cases "n_faces self \<le> 0 \<or> maxsize < n_faces self")
    case True
    with 3(2) show ?thesis by (auto split: if_splits)
  next
    case False
    then have n: "\<not> n_faces self \<le> 0" "\<not> maxsize < n_faces self" by simp_all
    show ?thesis
    proof (cases "r + 1 \<le> reroll_threshold self \<and> n_rerolls self \<noteq> 0")
      case True
      with 3(2) n have "roll lim (self\<lparr>n_rerolls := n_rerolls self - 1\<rparr>) rs = Some (Inl e)" by simp
      from 3(1)[OF n refl True this] n show ?thesis by simp
    next
      case no: False
      with 3(2) n show ?thesis by (auto simp: Let_def)
    qed
  qed
qed



lemma roll_overflow:
  "maxsize < n_faces self \<Longrightarrow> 0 < lim \<Longrightarrow> roll lim self rs = Some (Inl OverflowError)"
  by (cases lim; cases rs) (simp_all add: maxsize_def)

subsection \<open>A group of dice\<close>

lemma roll_times_frame:
  "roll_times lim k self rs = Some (Inr (xs, self', rs')) \<Longrightarrow>
     length xs = k \<and> same_but_budget self self' \<and> n_rerolls self' \<le> n_rerolls self \<and>
     (0 \<le> n_rerolls self \<longrightarrow> 0 \<le> n_rerolls self') \<and>
     int (length rs) = int (length rs') + int k + (n_rerolls self - n_rerolls self') \<and>
     set rs' \<subseteq> set rs"
proof (induction k arbitrary: self rs xs)
  case 0
  then show ?case by (simp add: same_but_budget_def)
next
  case (Suc k)
  from Suc.prems obtain x s1 rs1 ys where
    r: "roll lim self rs = Some (Inr (x, s1, rs1))" and
    t: "roll_times lim k s1 rs1 = Some (Inr (ys, self', rs'))" and
    xs: "xs = x # ys"
    by (auto split: option.splits sum.splits)
  from roll_frame[OF r] roll_suffix[OF r] Suc.IH[OF t] xs show ?case
    by (auto simp: same_but_budget_def)
qed

lemma roll_times_range:
  "roll_times lim k self rs = Some (Inr (xs, self', rs')) \<Longrightarrow> draws_ok (n_faces self) rs \<Longrightarrow>
     list_all (\<lambda>x. 1 \<le> x \<and> x \<le> n_faces self) xs"
proof (induction k arbitrary: self rs xs)
  case 0
  then show ?case by simp
next
  case (Suc k)
  from Suc.prems(1) obtain x s1 rs1 ys where
    r: "roll lim self rs = Some (Inr (x, s1, rs1))" and
    t: "roll_times lim k s1 rs1 = Some (Inr (ys, self', rs'))" and
    xs: "xs = x # ys"
    by (auto split: option.splits sum.splits)
  from roll_frame[OF r] have f: "n_faces s1 = n_faces self"
    by (auto simp: same_but_budget_def)
  have "draws_ok (n_faces s1) rs1"
    using Suc.prems(2) roll_suffix[OF r] unfolding f draws_ok_def list_all_iff by blast
  from Suc.IH[OF t this] roll_range[OF r Suc.prems(2)] xs f show ?case by simp
qed








subsection \<open>Removing the lowest and the highest results\<close>

lemma py_min_Min: "xs \<noteq> [] \<Longrightarrow> py_min xs = Inr (Min (set xs))"
proof (cases xs)
  case (Cons a list)
  then show ?thesis using Min.set_eq_fold[of a list] by simp
qed simp







lemma length_remove1_Min: "xs \<noteq> [] \<Longrightarrow> length (remove1 (Min (set xs)) xs) = length xs - 1"
  by (simp add: length_remove1)




lemma drop_lowest_too_many: "length rolls < k \<Longrightarrow> drop_lowest k rolls = Inl EmptySequence"
proof (induction k arbitrary: rolls)
  case 0
  then show ?case by simp
next
  case (Suc k)
  show ?case
  proof (cases rolls)
    case Nil
    then show ?thesis by simp
  next
    case (Cons a list)
    then have ne: "rolls \<noteq> []" by simp
    have "length (remove1 (Min (set rolls)) rolls) < k"
      using Suc.prems length_remove1_Min[OF ne] Cons by simp
    from Suc.IH[OF this] show ?thesis using ne by (simp add: py_min_Min)
  qed
qed



subsection \<open>Claims about the roll engine\<close>

text \<open>
  C2, as stated (a budget of \<open>N\<close> rerolls for each die of the group, independent of the
  other dice), fails: the budget is a field of the group's object, \<^verbatim>\<open>roll\<close> decrements
  it in place, and \<^verbatim>\<open>roll_n\<close> calls \<^verbatim>\<open>roll\<close> on the same object for every die. With
  two six-sided dice, budget 1 and threshold 5, and the draws 0, 1, 0, 5: the first die
  shows 1, is rerolled and shows 2; the second die shows 1 and stays, the budget being
  used up, where a budget of its own would have rerolled it to 6.
\<close>

theorem shared_budget_counterexample:
  "sanitize \<lparr>n_faces = 6, n_rolls = 2, n_rerolls = 1, reroll_threshold = 5,
             n_lowest_dropped = 0, n_highest_dropped = 0\<rparr> = Inr [] \<and>
   roll_times 100 2 \<lparr>n_faces = 6, n_rolls = 2, n_rerolls = 1, reroll_threshold = 5,
                 n_lowest_dropped = 0, n_highest_dropped = 0\<rparr> [0, 1, 0, 5] =
     Some (Inr ([2, 1], \<lparr>n_faces = 6, n_rolls = 2, n_rerolls = 0, reroll_threshold = 5,
                         n_lowest_dropped = 0, n_highest_dropped = 0\<rparr>, [5])) \<and>
   spec_roll_times_per_die 100 2 \<lparr>n_faces = 6, n_rolls = 2, n_rerolls = 1, reroll_threshold = 5,
                 n_lowest_dropped = 0, n_highest_dropped = 0\<rparr> [0, 1, 0, 5] =
     Some (Inr ([2, 6], []))"
  by (simp add: sanitize_def REGULAR_POLYHEDRA_def numeral_2_eq_2 roll_Cons_room maxsize_def)

text \<open>
  C2, amended: the budget \<open>N > 0\<close> is shared by the group. When \<^verbatim>\<open>roll_n\<close> returns, the
  budget left is between 0 and \<open>N\<close>, and the draws it used are one for each die plus one
  for each unit of budget spent: at most \<open>N\<close> rerolls in the whole group.
\<close>

theorem reroll_budget_shared_by_group:
  "0 < n_rerolls self \<and> roll_n lim self rs = Some (Inr (tot, self', rs')) \<longrightarrow>
      0 \<le> n_rerolls self' \<and> n_rerolls self' \<le> n_rerolls self \<and>
      int (length rs) - int (length rs') = int (nat (n_rolls self)) + (n_rerolls self - n_rerolls self')"
proof (intro impI, elim conjE)
  assume pos: "0 < n_rerolls self" and r: "roll_n lim self rs = Some (Inr (tot, self', rs'))"
  from r obtain rolls where
    t: "roll_times lim (nat (n_rolls self)) self rs = Some (Inr (rolls, self', rs'))"
    by (auto simp: roll_n_def split: option.splits sum.splits)
  from roll_times_frame[OF t] pos show
    "0 \<le> n_rerolls self' \<and> n_rerolls self' \<le> n_rerolls self \<and>
      int (length rs) - int (length rs') = int (nat (n_rolls self)) + (n_rerolls self - n_rerolls self')"
    by simp
qed

theorem reroll_budget_shared_by_group_witness:
  "(0::int) < n_rerolls \<lparr>n_faces = 6, n_rolls = 2, n_rerolls = 1, reroll_threshold = 5,
                 n_lowest_dropped = 0, n_highest_dropped = 0\<rparr> \<and>
   roll_n 100 \<lparr>n_faces = 6, n_rolls = 2, n_rerolls = 1, reroll_threshold = 5,
                 n_lowest_dropped = 0, n_highest_dropped = 0\<rparr> [0, 1, 0, 5] =
     Some (Inr (3, \<lparr>n_faces = 6, n_rolls = 2, n_rerolls = 0, reroll_threshold = 5,
                         n_lowest_dropped = 0, n_highest_dropped = 0\<rparr>, [5])) \<and>
   int (length [0, 1, 0, 5 :: int]) - int (length [5 :: int]) = 2 + (1 - 0)"
proof -
  have r: "roll_n 100 \<lparr>n_faces = 6, n_rolls = 2, n_rerolls = 1, reroll_threshold = 5,
                 n_lowest_dropped = 0, n_highest_dropped = 0\<rparr> [0, 1, 0, 5] =
     Some (Inr (3, \<lparr>n_faces = 6, n_rolls = 2, n_rerolls = 0, reroll_threshold = 5,
                         n_lowest_dropped = 0, n_highest_dropped = 0\<rparr>, [5]))"
    by (simp add: roll_n_def drop_and_sum_def numeral_2_eq_2 roll_Cons_room maxsize_def)
  from reroll_budget_shared_by_group[of "\<lparr>n_faces = 6, n_rolls = 2, n_rerolls = 1, reroll_threshold = 5,
                 n_lowest_dropped = 0, n_highest_dropped = 0\<rparr>" 100 "[0, 1, 0, 5]" 3 _ "[5]"] r
  show ?thesis by simp
qed





text \<open>
  C10: every configuration that the token loop builds and \<^verbatim>\<open>sanitize\<close> accepts has a
  threshold from 0 up, below \<open>n_faces\<close>, hence at least one face, and \<^verbatim>\<open>roll\<close> never
  draws from an empty range on it; a configuration with no face and a threshold from 0
  up is rejected. (\<^verbatim>\<open>sanitize\<close> itself has no check of \<open>n_faces\<close>: lemma
  \<open>sanitize_has_no_faces_check\<close>.)
\<close>

theorem validated_configuration_has_a_face:
  "(process_rolls [] specs = Inr dice_arr \<and> sanitize_all dice_arr = Inr ws \<and> d \<in> set dice_arr \<longrightarrow>
      0 \<le> reroll_threshold d \<and> reroll_threshold d < n_faces d \<and> 1 \<le> n_faces d \<and>
      roll lim d rs \<noteq> Some (Inl EmptyChoice)) \<and>
   (0 \<le> reroll_threshold cfg \<and> n_faces cfg = 0 \<longrightarrow> sanitize cfg \<noteq> Inr w)"
proof -
  have "0 \<le> reroll_threshold d \<and> reroll_threshold d < n_faces d \<and> 1 \<le> n_faces d \<and>
      roll lim d rs \<noteq> Some (Inl EmptyChoice)"
    if p: "process_rolls [] specs = Inr dice_arr" and s: "sanitize_all dice_arr = Inr ws"
      and m: "d \<in> set dice_arr"
  proof -
    from process_rolls_in_range[OF p] m have r: "in_range d" by (simp add: list_all_iff)
    from sanitize_all_member[OF s m] obtain w' where w': "sanitize d = Inr w'" by blast
    from r sanitize_accepts[OF w'] roll_error[of lim d rs EmptyChoice] validated_faces[OF r w']
    show ?thesis by (auto simp: in_range_def)
  qed
  moreover have "sanitize cfg \<noteq> Inr w" if "0 \<le> reroll_threshold cfg" "n_faces cfg = 0"
    using that sanitize_accepts[of cfg w] by auto
  ultimately show ?thesis by blast
qed

theorem validated_configuration_has_a_face_witness:
  "process_rolls [] [''2d1''] = Inr [\<lparr>n_faces = 1, n_rolls = 2, n_rerolls = 0, reroll_threshold = 0,
             n_lowest_dropped = 0, n_highest_dropped = 0\<rparr>] \<and>
   sanitize_all [\<lparr>n_faces = 1, n_rolls = 2, n_rerolls = 0, reroll_threshold = 0,
             n_lowest_dropped = 0, n_highest_dropped = 0\<rparr>] = Inr [NotRegularPolyhedron] \<and>
   (1::int) \<le> n_faces \<lparr>n_faces = 1, n_rolls = 2, n_rerolls = 0, reroll_threshold = 0,
             n_lowest_dropped = 0, n_highest_dropped = 0\<rparr> \<and>
   sanitize \<lparr>n_faces = 0, n_rolls = 2, n_rerolls = 0, reroll_threshold = 0,
             n_lowest_dropped = 0, n_highest_dropped = 0\<rparr> \<noteq> Inr []"
proof -
  have p: "process_rolls [] [''2d1''] = Inr [\<lparr>n_faces = 1, n_rolls = 2, n_rerolls = 0, reroll_threshold = 0,
             n_lowest_dropped = 0, n_highest_dropped = 0\<rparr>]"
    by (simp add: parse_defs)
  have s: "sanitize_all [\<lparr>n_faces = 1, n_rolls = 2, n_rerolls = 0, reroll_threshold = 0,
             n_lowest_dropped = 0, n_highest_dropped = 0\<rparr>] = Inr [NotRegularPolyhedron]"
    by (simp add: sanitize_def REGULAR_POLYHEDRA_def)
  from validated_configuration_has_a_face[of "[''2d1'']" _ _ "\<lparr>n_faces = 1, n_rolls = 2, n_rerolls = 0, reroll_threshold = 0,
             n_lowest_dropped = 0, n_highest_dropped = 0\<rparr>" _ _ "\<lparr>n_faces = 0, n_rolls = 2, n_rerolls = 0, reroll_threshold = 0,
             n_lowest_dropped = 0, n_highest_dropped = 0\<rparr>" "[]"] p s
  show ?thesis by simp
qed

section \<open>Properties of the simulation driver\<close>

subsection \<open>The store: copies are rolled, the configurations stay\<close>

lemma forget_heap_simps:
  "forget_heap None = None"
  "forget_heap (Some (Inl e)) = Some (Inl e)"
  "forget_heap (Some (Inr (x, h, rs))) = Some (Inr (x, rs))"
  by (simp_all add: forget_heap_def)

lemma forget_heap_None: "forget_heap r = None \<longleftrightarrow> r = None"
  by (simp add: forget_heap_def)

lemma forget_heap_Inl: "forget_heap r = Some (Inl e) \<longleftrightarrow> r = Some (Inl e)"
  by (cases r) (auto simp: forget_heap_def map_sum_def split: sum.splits)

lemma forget_heap_Inr: "forget_heap r = Some (Inr (x, rs)) \<longleftrightarrow> (\<exists>h. r = Some (Inr (x, h, rs)))"
  by (cases r) (auto simp: forget_heap_def map_sum_def split: sum.splits)

lemma run_cases:
  obtains (Diverges) "r = None" | (Raises) e where "r = Some (Inl e)"
    | (Returns) x h rs where "r = Some (Inr (x, h, rs))"
proof (cases r)
  case None
  then show ?thesis by (rule Diverges)
next
  case (Some a)
  show ?thesis
  proof (cases a)
    case (Inl e)
    with Some show ?thesis by (simp add: Raises)
  next
    case (Inr b)
    obtain x h rs where "b = (x, h, rs)" by (cases b)
    with Some Inr show ?thesis by (simp add: Returns)
  qed
qed

lemma deepcopy_list_eq:
  "\<forall>a \<in> set as. a < length h \<Longrightarrow>
     deepcopy_list h as = (h @ map ((!) h) as, [length h ..< length h + length as])"
proof (induction as arbitrary: h)
  case Nil
  then show ?case by simp
next
  case (Cons a as)
  have m: "map ((!) (h @ [h ! a])) as = map ((!) h) as"
    using Cons.prems by (simp add: nth_append)
  have "\<forall>b \<in> set as. b < length (h @ [h ! a])" using Cons.prems by auto
  from Cons.IH[OF this] have ih: "deepcopy_list (h @ [h ! a]) as =
      (h @ h ! a # map ((!) h) as, [Suc (length h) ..< Suc (length h + length as)])"
    by (simp add: m)
  have u: "[length h ..< length h + length (a # as)] =
      length h # [Suc (length h) ..< Suc (length h + length as)]"
    by (simp add: upt_conv_Cons del: upt_Suc)
  show ?case unfolding u by (simp add: deepcopy_def ih del: upt_Suc)
qed

lemma roll_each_fresh:
  "distinct as \<Longrightarrow> \<forall>a \<in> set as. a < length h \<Longrightarrow>
     forget_heap (roll_each lim h as rs) = spec_trial lim (map ((!) h) as) rs \<and>
     (\<forall>tots h' rs'. roll_each lim h as rs = Some (Inr (tots, h', rs')) \<longrightarrow>
        length h' = length h \<and> (\<forall>i. i \<notin> set as \<longrightarrow> h' ! i = h ! i))"
proof (induction as arbitrary: h rs)
  case Nil
  then show ?case by (simp add: forget_heap_simps)
next
  case (Cons a as)
  have a: "a < length h" "a \<notin> set as" "distinct as" using Cons.prems by auto
  show ?case
  proof (cases "roll_n lim (h ! a) rs")
    case None
    then show ?thesis by (simp add: roll_n_at_def forget_heap_simps)
  next
    case (Some res)
    show ?thesis
    proof (cases res)
      case (Inl e)
      with Some show ?thesis by (simp add: roll_n_at_def forget_heap_simps)
    next
      case (Inr b)
      obtain tot d' rs1 where b: "b = (tot, d', rs1)" by (cases b)
      have r: "roll_n lim (h ! a) rs = Some (Inr (tot, d', rs1))" using Some Inr b by simp
      let ?h = "h[a := d']"
      have at: "roll_n_at lim h a rs = Some (Inr (tot, ?h, rs1))" by (simp add: roll_n_at_def r)
      have m: "map ((!) ?h) as = map ((!) h) as" using a by (auto simp: nth_list_update)
      have "\<forall>c \<in> set as. c < length ?h" using Cons.prems by auto
      from Cons.IH[OF a(3) this, of rs1] have
        ih1: "forget_heap (roll_each lim ?h as rs1) = spec_trial lim (map ((!) h) as) rs1" and
        ih2: "\<And>tots h' rs'. roll_each lim ?h as rs1 = Some (Inr (tots, h', rs')) \<Longrightarrow>
                length h' = length h \<and> (\<forall>i. i \<notin> set as \<longrightarrow> h' ! i = ?h ! i)"
        unfolding m by auto
      show ?thesis
      proof (cases "roll_each lim ?h as rs1" rule: run_cases)
        case Diverges
        with ih1 have "spec_trial lim (map ((!) h) as) rs1 = None" by (simp add: forget_heap_simps)
        with Diverges show ?thesis by (simp add: at r forget_heap_simps)
      next
        case (Raises e)
        with ih1 have "spec_trial lim (map ((!) h) as) rs1 = Some (Inl e)" by (simp add: forget_heap_simps)
        with Raises show ?thesis by (simp add: at r forget_heap_simps)
      next
        case (Returns tots h' rs')
        with ih1 have "spec_trial lim (map ((!) h) as) rs1 = Some (Inr (tots, rs'))" by (simp add: forget_heap_simps)
        with Returns ih2[OF Returns] show ?thesis
          by (auto simp: at r forget_heap_simps)
      qed
    qed
  qed
qed

lemma explicit_loop_fresh:
  "\<forall>a \<in> set dice_arr. a < length h \<Longrightarrow>
     forget_heap (explicit_loop lim k h dice_arr rs) = spec_trials lim k (map ((!) h) dice_arr) rs \<and>
     (\<forall>rows h' rs'. explicit_loop lim k h dice_arr rs = Some (Inr (rows, h', rs')) \<longrightarrow>
        length h \<le> length h' \<and> take (length h) h' = h)"
proof (induction k arbitrary: h rs)
  case 0
  then show ?case by (simp add: forget_heap_simps)
next
  case (Suc k)
  let ?cfgs = "map ((!) h) dice_arr"
  let ?h1 = "h @ ?cfgs"
  let ?copies = "[length h ..< length h + length dice_arr]"
  have dc: "deepcopy_list h dice_arr = (?h1, ?copies)" using deepcopy_list_eq[OF Suc.prems] .
  have mc: "map ((!) ?h1) ?copies = ?cfgs"
    by (rule nth_equalityI) (simp_all add: nth_append)
  have "distinct ?copies" "\<forall>a \<in> set ?copies. a < length ?h1" by simp_all
  note re = roll_each_fresh[OF this, of lim rs, unfolded mc]
  have e1: "forget_heap (roll_each lim ?h1 ?copies rs) = spec_trial lim ?cfgs rs"
    by (rule conjunct1[OF re])
  have e2: "\<And>tots h' rs'. roll_each lim ?h1 ?copies rs = Some (Inr (tots, h', rs')) \<Longrightarrow>
            length h' = length ?h1 \<and> (\<forall>i. i \<notin> set ?copies \<longrightarrow> h' ! i = ?h1 ! i)"
    using conjunct2[OF re] by blast
  show ?case
  proof (cases "roll_each lim ?h1 ?copies rs" rule: run_cases)
    case Diverges
    with e1 have "spec_trial lim ?cfgs rs = None" by (simp add: forget_heap_simps)
    with Diverges show ?thesis by (simp add: dc forget_heap_simps)
  next
    case (Raises e)
    with e1 have "spec_trial lim ?cfgs rs = Some (Inl e)" by (simp add: forget_heap_simps)
    with Raises show ?thesis by (simp add: dc forget_heap_simps)
  next
    case (Returns row h2 rs1)
    with e1 have st: "spec_trial lim ?cfgs rs = Some (Inr (row, rs1))" by (simp add: forget_heap_simps)
    from e2[OF Returns] have len2: "length h2 = length ?h1"
      and same2: "\<And>i. i < length h \<Longrightarrow> h2 ! i = h ! i"
      by (auto simp: nth_append)
    have tk: "take (length h) h2 = h"
      by (rule nth_equalityI) (simp_all add: len2 same2)
    have m2: "map ((!) h2) dice_arr = ?cfgs" using Suc.prems same2 by simp
    have "\<forall>a \<in> set dice_arr. a < length h2" using Suc.prems len2 by auto
    note ih = Suc.IH[OF this, of rs1, unfolded m2]
    have ih1: "forget_heap (explicit_loop lim k h2 dice_arr rs1) = spec_trials lim k ?cfgs rs1"
      by (rule conjunct1[OF ih])
    have ih2: "\<And>rows h' rs'. explicit_loop lim k h2 dice_arr rs1 = Some (Inr (rows, h', rs')) \<Longrightarrow>
              length h2 \<le> length h' \<and> take (length h2) h' = h2"
      using conjunct2[OF ih] by blast
    show ?thesis
    proof (cases "explicit_loop lim k h2 dice_arr rs1" rule: run_cases)
      case Diverges
      with ih1 have "spec_trials lim k ?cfgs rs1 = None" by (simp add: forget_heap_simps)
      with Diverges show ?thesis by (simp add: dc Returns st forget_heap_simps)
    next
      case (Raises e)
      with ih1 have "spec_trials lim k ?cfgs rs1 = Some (Inl e)" by (simp add: forget_heap_simps)
      with Raises show ?thesis by (simp add: dc Returns st forget_heap_simps)
    next
      case R: (Returns rows h3 rs2)
      with ih1 have s2: "spec_trials lim k ?cfgs rs1 = Some (Inr (rows, rs2))" by (simp add: forget_heap_simps)
      from ih2[OF R] have l3: "length h2 \<le> length h3" and t3: "take (length h2) h3 = h2" by auto
      have "take (length h) h3 = take (length h) (take (length h2) h3)"
        using len2 by (simp add: min_def)
      with t3 tk have "take (length h) h3 = h" by simp
      with l3 len2 show ?thesis by (simp add: dc Returns R st s2 forget_heap_simps)
    qed
  qed
qed

lemma spec_trial_cases:
  obtains (Diverges) "r = None" | (Raises) e where "r = Some (Inl e)"
    | (Returns) x rs where "r = Some (Inr (x, rs))"
proof (cases r)
  case None
  then show ?thesis by (rule Diverges)
next
  case (Some a)
  show ?thesis
  proof (cases a)
    case (Inl e)
    with Some show ?thesis by (simp add: Raises)
  next
    case (Inr b)
    obtain x rs where "b = (x, rs)" by (cases b)
    with Some Inr show ?thesis by (simp add: Returns)
  qed
qed

lemma spec_trial_length:
  "spec_trial lim cfgs rs = Some (Inr (row, rs')) \<Longrightarrow> length row = length cfgs"
proof (induction cfgs arbitrary: rs row)
  case Nil
  then show ?case by simp
next
  case (Cons cfg cfgs)
  from Cons.prems obtain tot c rs1 tots where
    "spec_trial lim cfgs rs1 = Some (Inr (tots, rs'))" and "row = tot # tots"
    by (auto split: option.splits sum.splits)
  with Cons.IH show ?case by auto
qed

lemma spec_trials_shape:
  "spec_trials lim k cfgs rs = Some (Inr (rows, rs')) \<Longrightarrow>
     length rows = k \<and> list_all (\<lambda>row. length row = length cfgs) rows"
proof (induction k arbitrary: rs rows)
  case 0
  then show ?case by simp
next
  case (Suc k)
  from Suc.prems obtain row rs1 rows1 where
    t: "spec_trial lim cfgs rs = Some (Inr (row, rs1))" and
    ts: "spec_trials lim k cfgs rs1 = Some (Inr (rows1, rs'))" and r: "rows = row # rows1"
    by (auto split: option.splits sum.splits)
  from Suc.IH[OF ts] spec_trial_length[OF t] r show ?case by simp
qed

lemma sum_arr_step:
  assumes "i < length sum_arr"
  shows "take (Suc i) (sum_arr[i := sum_arr ! i + tot]) @
           map (\<lambda>(s, t). s + t) (zip (drop (Suc i) sum_arr) tots) =
         take i sum_arr @ map (\<lambda>(s, t). s + t) (zip (drop i sum_arr) (tot # tots))"
proof -
  have d: "drop i sum_arr = sum_arr ! i # drop (Suc i) sum_arr"
    using assms by (simp add: Cons_nth_drop_Suc)
  have t: "take (Suc i) (sum_arr[i := sum_arr ! i + tot]) = take i sum_arr @ [sum_arr ! i + tot]"
    using assms by (simp add: take_Suc_conv_app_nth)
  show ?thesis unfolding d t by simp
qed

lemma freq_trial_fresh:
  "\<forall>a \<in> set as. a < length h \<Longrightarrow> i + length as = length sum_arr \<Longrightarrow>
   forget_heap (freq_trial lim h as i sum_arr rs) =
     (case spec_trial lim (map ((!) h) as) rs of
        None \<Rightarrow> None
      | Some (Inl e) \<Rightarrow> Some (Inl e)
      | Some (Inr (tots, rs')) \<Rightarrow>
          Some (Inr (take i sum_arr @ map (\<lambda>(s, t). s + t) (zip (drop i sum_arr) tots), rs'))) \<and>
   (\<forall>sums h' rs'. freq_trial lim h as i sum_arr rs = Some (Inr (sums, h', rs')) \<longrightarrow>
      length h \<le> length h' \<and> take (length h) h' = h)"
proof (induction as arbitrary: h i sum_arr rs)
  case Nil
  then show ?case by (simp add: forget_heap_simps)
next
  case (Cons a as)
  have a: "a < length h" using Cons.prems by simp
  have i: "i < length sum_arr" using Cons.prems by simp
  have dc: "deepcopy h a = (h @ [h ! a], length h)" by (simp add: deepcopy_def)
  show ?case
  proof (cases "roll_n lim (h ! a) rs")
    case None
    then show ?thesis by (simp add: dc roll_n_at_def forget_heap_simps)
  next
    case (Some res)
    show ?thesis
    proof (cases res)
      case (Inl e)
      with Some show ?thesis by (simp add: dc roll_n_at_def forget_heap_simps)
    next
      case (Inr b)
      obtain tot d' rs1 where b: "b = (tot, d', rs1)" by (cases b)
      have r: "roll_n lim (h ! a) rs = Some (Inr (tot, d', rs1))" using Some Inr b by simp
      let ?h2 = "h @ [d']"
      let ?s = "sum_arr[i := sum_arr ! i + tot]"
      have at: "roll_n_at lim (h @ [h ! a]) (length h) rs = Some (Inr (tot, ?h2, rs1))"
        by (simp add: roll_n_at_def r)
      have unf: "freq_trial lim h (a # as) i sum_arr rs = freq_trial lim ?h2 as (Suc i) ?s rs1"
        by (simp add: dc at)
      have m: "map ((!) ?h2) as = map ((!) h) as"
        using Cons.prems by (simp add: nth_append)
      have p1: "\<forall>c \<in> set as. c < length ?h2" using Cons.prems by auto
      have p2: "Suc i + length as = length ?s" using Cons.prems by simp
      note ih = Cons.IH[OF p1 p2, of rs1, unfolded m]
      have frame: "length h \<le> length h' \<and> take (length h) h' = h"
        if "freq_trial lim ?h2 as (Suc i) ?s rs1 = Some (Inr (sums, h', rs'))" for sums h' rs'
      proof -
        from conjunct2[OF ih] that have l: "length ?h2 \<le> length h'" and t: "take (length ?h2) h' = ?h2"
          by blast+
        have "take (length h) h' = take (length h) (take (length ?h2) h')"
          by (simp add: min_def)
        with t l show ?thesis by simp
      qed
      have eq: "forget_heap (freq_trial lim ?h2 as (Suc i) ?s rs1) =
        (case spec_trial lim (map ((!) h) (a # as)) rs of
          None \<Rightarrow> None
        | Some (Inl e) \<Rightarrow> Some (Inl e)
        | Some (Inr (tots, rs')) \<Rightarrow>
            Some (Inr (take i sum_arr @ map (\<lambda>(s, t). s + t) (zip (drop i sum_arr) tots), rs')))"
      proof (cases "spec_trial lim (map ((!) h) as) rs1" rule: spec_trial_cases)
        case Diverges
        then show ?thesis unfolding conjunct1[OF ih] by (simp add: r)
      next
        case (Raises e)
        then show ?thesis unfolding conjunct1[OF ih] by (simp add: r)
      next
        case (Returns tots rs')
        then show ?thesis unfolding conjunct1[OF ih]
          by (simp add: r sum_arr_step[OF i] del: take_Suc_conv_app_nth)
      qed
      show ?thesis unfolding unf using eq frame by blast
    qed
  qed
qed

lemma add_rows_Cons:
  "add_rows sum_arr (row # rows) = add_rows (map (\<lambda>(s, t). s + t) (zip sum_arr row)) rows"
  by (simp add: add_rows_def)

lemma freq_loop_fresh:
  "\<forall>a \<in> set dice_arr. a < length h \<Longrightarrow> length sum_arr = length dice_arr \<Longrightarrow>
   forget_heap (freq_loop lim k h dice_arr sum_arr rs) =
     (case spec_trials lim k (map ((!) h) dice_arr) rs of
        None \<Rightarrow> None
      | Some (Inl e) \<Rightarrow> Some (Inl e)
      | Some (Inr (rows, rs')) \<Rightarrow> Some (Inr (add_rows sum_arr rows, rs'))) \<and>
   (\<forall>sums h' rs'. freq_loop lim k h dice_arr sum_arr rs = Some (Inr (sums, h', rs')) \<longrightarrow>
      length h \<le> length h' \<and> take (length h) h' = h)"
proof (induction k arbitrary: h sum_arr rs)
  case 0
  then show ?case by (simp add: forget_heap_simps add_rows_def)
next
  case (Suc k)
  let ?cfgs = "map ((!) h) dice_arr"
  have p: "0 + length dice_arr = length sum_arr" using Suc.prems by simp
  note ft = freq_trial_fresh[OF Suc.prems(1) p, of lim rs]
  have ft1: "forget_heap (freq_trial lim h dice_arr 0 sum_arr rs) =
     (case spec_trial lim ?cfgs rs of
        None \<Rightarrow> None
      | Some (Inl e) \<Rightarrow> Some (Inl e)
      | Some (Inr (tots, rs')) \<Rightarrow> Some (Inr (map (\<lambda>(s, t). s + t) (zip sum_arr tots), rs')))"
    using conjunct1[OF ft]
    by (cases "spec_trial lim ?cfgs rs" rule: spec_trial_cases) simp_all
  show ?case
  proof (cases "spec_trial lim ?cfgs rs" rule: spec_trial_cases)
    case Diverges
    with ft1 have "freq_trial lim h dice_arr 0 sum_arr rs = None" by (simp add: forget_heap_None)
    with Diverges show ?thesis by (simp add: forget_heap_simps)
  next
    case (Raises e)
    with ft1 have "freq_trial lim h dice_arr 0 sum_arr rs = Some (Inl e)" by (simp add: forget_heap_Inl)
    with Raises show ?thesis by (simp add: forget_heap_simps)
  next
    case (Returns tots rs1)
    let ?s = "map (\<lambda>(s, t). s + t) (zip sum_arr tots)"
    from Returns ft1 obtain h1 where
      f: "freq_trial lim h dice_arr 0 sum_arr rs = Some (Inr (?s, h1, rs1))"
      by (auto simp: forget_heap_Inr)
    from conjunct2[OF ft] f have l1: "length h \<le> length h1" and t1: "take (length h) h1 = h"
      by blast+
    have nth1: "h1 ! a = h ! a" if "a < length h" for a
      using that t1 by (metis nth_take)
    have m1: "map ((!) h1) dice_arr = ?cfgs" using Suc.prems(1) nth1 by simp
    have p1: "\<forall>a \<in> set dice_arr. a < length h1" using Suc.prems(1) l1 by auto
    have p2: "length ?s = length dice_arr"
      using Suc.prems(2) spec_trial_length[OF Returns] by simp
    note ih = Suc.IH[OF p1 p2, of rs1, unfolded m1]
    have unf: "freq_loop lim (Suc k) h dice_arr sum_arr rs = freq_loop lim k h1 dice_arr ?s rs1"
      by (simp add: f)
    have frame: "length h \<le> length h' \<and> take (length h) h' = h"
      if "freq_loop lim k h1 dice_arr ?s rs1 = Some (Inr (sums, h', rs'))" for sums h' rs'
    proof -
      from conjunct2[OF ih] that have l: "length h1 \<le> length h'" and t: "take (length h1) h' = h1"
        by blast+
      have "take (length h) h' = take (length h) (take (length h1) h')"
        using l1 by (simp add: min_def)
      with t t1 l l1 show ?thesis by simp
    qed
    have eq: "forget_heap (freq_loop lim k h1 dice_arr ?s rs1) =
      (case spec_trials lim (Suc k) ?cfgs rs of
        None \<Rightarrow> None
      | Some (Inl e) \<Rightarrow> Some (Inl e)
      | Some (Inr (rows, rs')) \<Rightarrow> Some (Inr (add_rows sum_arr rows, rs')))"
      unfolding conjunct1[OF ih]
      by (cases "spec_trials lim k ?cfgs rs1" rule: spec_trial_cases)
         (simp_all add: Returns add_rows_Cons)
    show ?thesis unfolding unf using eq frame by blast
  qed
qed

lemma kept_configurations:
  assumes "list_all (\<lambda>a. a < length h) dice_arr" and "length h \<le> length h'" and "take (length h) h' = h"
  shows "map ((!) h') dice_arr = map ((!) h) dice_arr" and "list_all (\<lambda>a. a < length h') dice_arr"
proof -
  have "h' ! a = h ! a" if "a < length h" for a
    using that assms(3) by (metis nth_take)
  with assms(1) show "map ((!) h') dice_arr = map ((!) h) dice_arr"
    by (simp add: list_all_iff)
  from assms(1,2) show "list_all (\<lambda>a. a < length h') dice_arr"
    by (auto simp: list_all_iff)
qed

subsection \<open>Claims about the driver\<close>

text \<open>
  C6: in both branches every trial starts from the validated configurations. For a
  store \<open>h\<close> that holds the configurations at the addresses \<open>dice_arr\<close>, the explicit
  loop prints exactly the rows of the specification's independent trials, and the
  frequentist loop adds up exactly those rows; after any number of trials the objects
  at \<open>dice_arr\<close> are what they were, so the loop run from the store that earlier trials
  left behaves, on any draws, as the loop run from the first store: no trial can see
  what an earlier one spent of the reroll budget.
\<close>

theorem trials_start_from_validated_configuration:
  "list_all (\<lambda>a. a < length h) dice_arr \<longrightarrow>
     forget_heap (explicit_loop lim k h dice_arr rs) = spec_trials lim k (map ((!) h) dice_arr) rs \<and>
     (length sum_arr = length dice_arr \<longrightarrow>
        forget_heap (freq_loop lim k h dice_arr sum_arr rs) =
          (case spec_trials lim k (map ((!) h) dice_arr) rs of
             None \<Rightarrow> None
           | Some (Inl e) \<Rightarrow> Some (Inl e)
           | Some (Inr (rows, rs')) \<Rightarrow> Some (Inr (add_rows sum_arr rows, rs')))) \<and>
     (explicit_loop lim j h dice_arr rs = Some (Inr (rowsE, hE, rsE)) \<longrightarrow>
        map ((!) hE) dice_arr = map ((!) h) dice_arr \<and>
        forget_heap (explicit_loop lim k hE dice_arr rs2) = forget_heap (explicit_loop lim k h dice_arr rs2)) \<and>
     (length sum_arr = length dice_arr \<and>
      freq_loop lim j h dice_arr sum_arr rs = Some (Inr (sumsF, hF, rsF)) \<longrightarrow>
        map ((!) hF) dice_arr = map ((!) h) dice_arr \<and>
        forget_heap (freq_loop lim k hF dice_arr sum_arr rs2) = forget_heap (freq_loop lim k h dice_arr sum_arr rs2))"
proof
  assume wf: "list_all (\<lambda>a. a < length h) dice_arr"
  then have wf': "\<forall>a \<in> set dice_arr. a < length h" by (simp add: list_all_iff)
  have A: "forget_heap (explicit_loop lim k h dice_arr rs) = spec_trials lim k (map ((!) h) dice_arr) rs"
    by (rule conjunct1[OF explicit_loop_fresh[OF wf']])
  have B: "forget_heap (freq_loop lim k h dice_arr sum_arr rs) =
          (case spec_trials lim k (map ((!) h) dice_arr) rs of
             None \<Rightarrow> None
           | Some (Inl e) \<Rightarrow> Some (Inl e)
           | Some (Inr (rows, rs')) \<Rightarrow> Some (Inr (add_rows sum_arr rows, rs')))"
    if "length sum_arr = length dice_arr"
    by (rule conjunct1[OF freq_loop_fresh[OF wf' that]])
  have C: "map ((!) hE) dice_arr = map ((!) h) dice_arr \<and>
        forget_heap (explicit_loop lim k hE dice_arr rs2) = forget_heap (explicit_loop lim k h dice_arr rs2)"
    if e: "explicit_loop lim j h dice_arr rs = Some (Inr (rowsE, hE, rsE))"
  proof -
    from conjunct2[OF explicit_loop_fresh[OF wf', of lim j rs]] e
    have "length h \<le> length hE" "take (length h) hE = h" by blast+
    note k = kept_configurations[OF wf this]
    from k(2) have "\<forall>a \<in> set dice_arr. a < length hE" by (simp add: list_all_iff)
    from conjunct1[OF explicit_loop_fresh[OF this, of lim k rs2]]
      conjunct1[OF explicit_loop_fresh[OF wf', of lim k rs2]] k(1)
    show ?thesis by simp
  qed
  have D: "map ((!) hF) dice_arr = map ((!) h) dice_arr \<and>
        forget_heap (freq_loop lim k hF dice_arr sum_arr rs2) = forget_heap (freq_loop lim k h dice_arr sum_arr rs2)"
    if len: "length sum_arr = length dice_arr"
      and f: "freq_loop lim j h dice_arr sum_arr rs = Some (Inr (sumsF, hF, rsF))"
  proof -
    from conjunct2[OF freq_loop_fresh[OF wf' len, of lim j rs]] f
    have "length h \<le> length hF" "take (length h) hF = h" by blast+
    note k = kept_configurations[OF wf this]
    from k(2) have "\<forall>a \<in> set dice_arr. a < length hF" by (simp add: list_all_iff)
    from conjunct1[OF freq_loop_fresh[OF this len, of lim k rs2]]
      conjunct1[OF freq_loop_fresh[OF wf' len, of lim k rs2]] k(1)
    show ?thesis by simp
  qed
  from A B C D show "forget_heap (explicit_loop lim k h dice_arr rs) = spec_trials lim k (map ((!) h) dice_arr) rs \<and>
     (length sum_arr = length dice_arr \<longrightarrow>
        forget_heap (freq_loop lim k h dice_arr sum_arr rs) =
          (case spec_trials lim k (map ((!) h) dice_arr) rs of
             None \<Rightarrow> None
           | Some (Inl e) \<Rightarrow> Some (Inl e)
           | Some (Inr (rows, rs')) \<Rightarrow> Some (Inr (add_rows sum_arr rows, rs')))) \<and>
     (explicit_loop lim j h dice_arr rs = Some (Inr (rowsE, hE, rsE)) \<longrightarrow>
        map ((!) hE) dice_arr = map ((!) h) dice_arr \<and>
        forget_heap (explicit_loop lim k hE dice_arr rs2) = forget_heap (explicit_loop lim k h dice_arr rs2)) \<and>
     (length sum_arr = length dice_arr \<and>
      freq_loop lim j h dice_arr sum_arr rs = Some (Inr (sumsF, hF, rsF)) \<longrightarrow>
        map ((!) hF) dice_arr = map ((!) h) dice_arr \<and>
        forget_heap (freq_loop lim k hF dice_arr sum_arr rs2) = forget_heap (freq_loop lim k h dice_arr sum_arr rs2))"
    by blast
qed

theorem trials_start_from_validated_configuration_witness:
  "list_all (\<lambda>a. a < length [\<lparr>n_faces = 6, n_rolls = 1, n_rerolls = 1, reroll_threshold = 5,
                                n_lowest_dropped = 0, n_highest_dropped = 0\<rparr>]) [0] \<and>
   explicit_loop 100 2 [\<lparr>n_faces = 6, n_rolls = 1, n_rerolls = 1, reroll_threshold = 5,
                     n_lowest_dropped = 0, n_highest_dropped = 0\<rparr>] [0] [0, 3, 0, 2] =
     Some (Inr ([[4], [3]],
       [\<lparr>n_faces = 6, n_rolls = 1, n_rerolls = 1, reroll_threshold = 5,
          n_lowest_dropped = 0, n_highest_dropped = 0\<rparr>,
        \<lparr>n_faces = 6, n_rolls = 1, n_rerolls = 0, reroll_threshold = 5,
          n_lowest_dropped = 0, n_highest_dropped = 0\<rparr>,
        \<lparr>n_faces = 6, n_rolls = 1, n_rerolls = 0, reroll_threshold = 5,
          n_lowest_dropped = 0, n_highest_dropped = 0\<rparr>], [])) \<and>
   spec_trials 100 2 [\<lparr>n_faces = 6, n_rolls = 1, n_rerolls = 1, reroll_threshold = 5,
                   n_lowest_dropped = 0, n_highest_dropped = 0\<rparr>] [0, 3, 0, 2] =
     Some (Inr ([[4], [3]], []))"
proof -
  let ?c = "\<lparr>n_faces = 6, n_rolls = 1, n_rerolls = 1, reroll_threshold = 5,
             n_lowest_dropped = 0, n_highest_dropped = 0\<rparr>"
  let ?z = "\<lparr>n_faces = 6, n_rolls = 1, n_rerolls = 0, reroll_threshold = 5,
             n_lowest_dropped = 0, n_highest_dropped = 0\<rparr>"
  have wf: "list_all (\<lambda>a. a < length [?c]) [0]" by simp
  have e: "explicit_loop 100 2 [?c] [0] [0, 3, 0, 2] = Some (Inr ([[4], [3]], [?c, ?z, ?z], []))"
    by (simp add: numeral_2_eq_2 deepcopy_def roll_n_at_def roll_n_def drop_and_sum_def
        roll_Cons_room maxsize_def)
  from trials_start_from_validated_configuration[of "[?c]" "[0]" 100 2 "[0, 3, 0, 2]"] wf
  have "forget_heap (explicit_loop 100 2 [?c] [0] [0, 3, 0, 2]) = spec_trials 100 2 [?c] [0, 3, 0, 2]"
    by simp
  then have "spec_trials 100 2 [?c] [0, 3, 0, 2] = Some (Inr ([[4], [3]], []))"
    unfolding e by (simp add: forget_heap_simps)
  with wf e show ?thesis by simp
qed

subsection \<open>\<^verbatim>\<open>main\<close>\<close>

lemma upt_addresses: "map ((!) h) [0 ..< length h] = h" "list_all (\<lambda>a. a < length h) [0 ..< length h]"
  by (simp_all add: map_nth list_all_iff)

lemma main_explicit_rows:
  assumes "\<not> args_freqtest args"
    and "n = (case args_ntests args of Some m \<Rightarrow> m | None \<Rightarrow> 1)"
    and "n \<noteq> N_FREQTEST"
    and "main lim args rs = Some (Inr out)"
  shows "\<exists>cfgs rows. process_rolls [] (args_rolls args) = Inr cfgs \<and> out = Rolls rows \<and>
           length rows = nat n \<and> list_all (\<lambda>row. length row = length cfgs) rows"
proof -
  from assms obtain cfgs ws where p: "process_rolls [] (args_rolls args) = Inr cfgs"
    and s: "sanitize_all cfgs = Inr ws"
    by (auto simp: main_def Let_def split: sum.splits if_splits)
  from assms p s obtain rows h' rs' where
    e: "explicit_loop lim (nat n) cfgs [0 ..< length cfgs] rs = Some (Inr (rows, h', rs'))"
    and o: "out = Rolls rows"
    by (auto simp: main_def Let_def split: sum.splits if_splits option.splits)
  have wf: "\<forall>a \<in> set [0 ..< length cfgs]. a < length cfgs" by simp
  from conjunct1[OF explicit_loop_fresh[OF wf, of lim "nat n" rs]] e
  have "spec_trials lim (nat n) cfgs rs = Some (Inr (rows, rs'))"
    by (simp add: forget_heap_simps map_nth)
  from spec_trials_shape[OF this] p o show ?thesis by simp
qed

lemma roll_n_plain_d6:
  "roll_n (Suc lim) \<lparr>n_faces = 6, n_rolls = 1, n_rerolls = 0, reroll_threshold = 0,
           n_lowest_dropped = 0, n_highest_dropped = 0\<rparr> (2 # rs) =
     Some (Inr (3, \<lparr>n_faces = 6, n_rolls = 1, n_rerolls = 0, reroll_threshold = 0,
           n_lowest_dropped = 0, n_highest_dropped = 0\<rparr>, rs))"
  by (simp add: roll_n_def drop_and_sum_def maxsize_def)

lemma spec_trials_plain_d6:
  "spec_trials (Suc lim) k [\<lparr>n_faces = 6, n_rolls = 1, n_rerolls = 0, reroll_threshold = 0,
           n_lowest_dropped = 0, n_highest_dropped = 0\<rparr>] (replicate k 2 @ rs) =
     Some (Inr (replicate k [3], rs))"
  by (induction k) (simp_all add: roll_n_plain_d6)

lemma add_rows_threes: "add_rows [s] (replicate k [3]) = [s + 3 * int k]"
  by (induction k arbitrary: s) (simp_all add: add_rows_def algebra_simps)

lemma main_explicit_example:
  "main (Suc lim) \<lparr>args_rolls = [''1d6''], args_ntests = Some 3, args_freqtest = False\<rparr> [2, 2, 2]
     = Some (Inr (Rolls [[3], [3], [3]]))"
  by (simp add: main_def parse_defs sanitize_def REGULAR_POLYHEDRA_def N_FREQTEST_def
      eval_nat_numeral deepcopy_def roll_n_at_def roll_n_def drop_and_sum_def maxsize_def)

text \<open>
  C4 (an explicit trial count \<open>N > 0\<close> gives \<open>N\<close> rows of sums, never averages). The
  source does so for every \<open>N\<close> but one (lemma \<open>main_explicit_rows\<close>): it chooses the
  branch by \<^verbatim>\<open>n_tests == N_FREQTEST\<close> and not by the flag, so the explicit count
  100000 takes the frequentist branch. With \<^verbatim>\<open>--ntests 100000\<close>, no \<^verbatim>\<open>--freqtest\<close>,
  the roll \<^verbatim>\<open>1d6\<close> and a die that always shows 3, \<^verbatim>\<open>main\<close> prints the one average
  300000 / 100000 and no row (with any room for a call of \<^verbatim>\<open>roll\<close>); and whatever the
  rolls and the draws, it prints no rows for that count.
\<close>

theorem explicit_count_100000_prints_average:
  "main (Suc lim) \<lparr>args_rolls = [''1d6''], args_ntests = Some 100000, args_freqtest = False\<rparr>
        (replicate 100000 2) = Some (Inr (Average [300000] 100000)) \<and>
   main lim \<lparr>args_rolls = specs, args_ntests = Some 100000, args_freqtest = False\<rparr> rs
        \<noteq> Some (Inr (Rolls rows))"
proof
  let ?c = "\<lparr>n_faces = 6, n_rolls = 1, n_rerolls = 0, reroll_threshold = 0,
           n_lowest_dropped = 0, n_highest_dropped = 0\<rparr>"
  have p: "process_rolls [] [''1d6''] = Inr [?c]" by (simp add: parse_defs)
  have s: "sanitize_all [?c] = Inr []" by (simp add: sanitize_def REGULAR_POLYHEDRA_def)
  have wf: "\<forall>a \<in> set [0]. a < length [?c]" by simp
  have len: "length [0::int] = length [0::nat]" by simp
  from conjunct1[OF freq_loop_fresh[OF wf len, of "Suc lim" 100000 "replicate 100000 2"]]
    spec_trials_plain_d6[of lim 100000 "[]"]
  have "forget_heap (freq_loop (Suc lim) 100000 [?c] [0] [0] (replicate 100000 2)) = Some (Inr ([300000], []))"
    by (simp add: add_rows_threes)
  then obtain h' where f: "freq_loop (Suc lim) 100000 [?c] [0] [0] (replicate 100000 2) = Some (Inr ([300000], h', []))"
    by (auto simp: forget_heap_Inr)
  show "main (Suc lim) \<lparr>args_rolls = [''1d6''], args_ntests = Some 100000, args_freqtest = False\<rparr>
        (replicate 100000 2) = Some (Inr (Average [300000] 100000))"
    by (simp add: main_def p s N_FREQTEST_def f del: process_rolls.simps sanitize_all.simps)
  show "main lim \<lparr>args_rolls = specs, args_ntests = Some 100000, args_freqtest = False\<rparr> rs
        \<noteq> Some (Inr (Rolls rows))"
    by (simp add: main_def Let_def N_FREQTEST_def split: sum.splits option.splits)
qed

theorem explicit_count_100000_prints_average_witness:
  "main 100 \<lparr>args_rolls = [''1d6''], args_ntests = Some 100000, args_freqtest = False\<rparr>
        (replicate 100000 2) \<noteq> Some (Inr (Rolls (replicate 100000 [3])))"
  using explicit_count_100000_prints_average[of 100 "[''1d6'']" "replicate 100000 2" "replicate 100000 [3]"]
  by simp

end
